theory Spec2Isabelle
  imports Main "HOL-Library.AList" "HOL-Library.Char_ord" "HOL-Library.List_Lexorder"
begin

section \<open>Stateful key-value cache transformation of a computation graph\<close>

text \<open>
  A shallow embedding of \<^verbatim>\<open>optimum/exporters/openvino/stateful.py\<close>. The Python
  functions mutate a graph object of the graph engine in place; here the graph is a value
  (a store of nodes addressed by their index), every function takes the state and returns
  it updated, and every \<^verbatim>\<open>raise\<close> or failed \<^verbatim>\<open>assert\<close> is the outcome
  \<open>Failed\<close>, carrying the state as the exception leaves it.
\<close>

subsection \<open>The graph\<close>

datatype element_type = boolean | bf16 | f16 | f32 | f64 | i8 | i32 | i64 | u8

text \<open>
  A dimension of a partial shape is an interval of extents; \<open>max_length = -1\<close> stands for
  "no upper bound". A static dimension has both bounds equal.
\<close>

record dimension =
  min_length :: int
  max_length :: int

text \<open>
  Modelled from the spec: the dimension the engine builds from a signed 64-bit integer, as
  in \<^verbatim>\<open>shape[0] = 4\<close>. The value \<open>-1\<close> is the engine's notation for a dynamic
  dimension. Every other value is clipped to the interval from 0 to \<open>2^63 - 1\<close> and is
  then both bounds of the dimension, so a negative value gives the static extent 0; the
  largest value is the engine's "no bound", which it reports as \<open>-1\<close>.
\<close>

definition Dimension :: "int \<Rightarrow> dimension" where
  "Dimension v =
     (if v = - 1 then \<lparr>min_length = 0, max_length = - 1\<rparr>
      else (let clipped = max 0 (min (2 ^ 63 - 1) v);
                reported = (if clipped = 2 ^ 63 - 1 then - 1 else clipped)
            in \<lparr>min_length = reported, max_length = reported\<rparr>))"

type_synonym partial_shape = "dimension list"

datatype constant_value = Scalar int | Vector "int list" | Zero element_type

datatype attribute =
    No_attribute
  | Parameter_attr element_type partial_shape
  | Value constant_value
  | Output_type element_type
  | Axis int

text \<open>
  A node and its output tensor. Nodes are addressed by their position in the store, and
  an argument is the address of the node whose output is read. \<open>output_partial_shape\<close>
  and \<open>output_element_type\<close> are the shape and type of the output as the engine last
  inferred them; a Parameter node also carries its declared type and shape, the attribute
  that \<^verbatim>\<open>set_partial_shape\<close> writes. \<open>names\<close> are the names of the output tensor;
  the tensor of a Result node is the tensor it reads, so it carries that tensor's names.
\<close>

record node =
  type_name :: string
  friendly_name :: string
  arguments :: "nat list"
  attribute :: attribute
  names :: "string list"
  output_partial_shape :: partial_shape
  output_element_type :: element_type

record model =
  nodes :: "node list"
  parameters :: "nat list"
  results :: "nat list"
  sinks :: "nat list"

subsection \<open>Errors, state and outcomes\<close>

datatype error =
    AssertionError
  | RuntimeError
  | IndexError
  | TypeError
  | AttributeError
  | ValueError string
  | NodeValidationFailure

text \<open>
  The state the functions work on: the graph \<^verbatim>\<open>ov_model\<close>, the caller's list
  \<^verbatim>\<open>not_kv_inputs\<close> (a Python list shared by reference, of ports of the graph), and
  what has been printed.
\<close>

record state =
  ov_model :: model
  not_kv_inputs :: "nat list"
  stdout :: "string list"

datatype 'a result = Done 'a state | Failed error state

definition bind_result :: "'a result \<Rightarrow> ('a \<Rightarrow> state \<Rightarrow> 'b result) \<Rightarrow> 'b result" where
  "bind_result r f = (case r of Done a s \<Rightarrow> f a s | Failed e s \<Rightarrow> Failed e s)"

fun is_done :: "'a result \<Rightarrow> bool" where
  "is_done (Done a s) = True"
| "is_done (Failed e s) = False"

fun state_of :: "'a result \<Rightarrow> state" where
  "state_of (Done a s) = s"
| "state_of (Failed e s) = s"


subsection \<open>The graph engine\<close>

text \<open>
  What the hosting engine decides and this program only consults: the reported version and
  the version comparison \<^verbatim>\<open>is_openvino_version\<close>, the shape and type inference of
  a newly constructed node (\<open>None\<close> when the node is rejected), the inference over the
  whole graph (\<open>None\<close> when it fails, otherwise the inferred output of every node), and
  the transformation that turns matched input/output pairs into persistent state
  (\<open>None\<close> when it raises).
\<close>

record engine =
  ov_version :: string
  is_openvino_version :: "string \<Rightarrow> string \<Rightarrow> bool"
  infer_node :: "model \<Rightarrow> node \<Rightarrow> (partial_shape \<times> element_type) option"
  infer_model :: "model \<Rightarrow> (nat \<Rightarrow> partial_shape \<times> element_type) option"
  make_stateful_transformation :: "model \<Rightarrow> (string \<times> string) list \<Rightarrow> model option"

text \<open>
  Modelled from the spec: the structural interface of the graph engine named in the
  spec's section 6 (named-port lookup, node construction, consumer-edge enumeration and
  redirection, shape/type re-inference); the engine's own code is not part of the
  repository.
\<close>

definition inputs :: "model \<Rightarrow> nat list" where
  "inputs m = parameters m"

definition outputs :: "model \<Rightarrow> nat list" where
  "outputs m = results m"

definition get_names :: "model \<Rightarrow> nat \<Rightarrow> string list" where
  "get_names m p = names (nodes m ! p)"

definition get_partial_shape :: "model \<Rightarrow> nat \<Rightarrow> partial_shape" where
  "get_partial_shape m p = output_partial_shape (nodes m ! p)"

definition get_output_element_type :: "model \<Rightarrow> nat \<Rightarrow> element_type" where
  "get_output_element_type m p = output_element_type (nodes m ! p)"

definition get_type_name :: "model \<Rightarrow> nat \<Rightarrow> string" where
  "get_type_name m p = type_name (nodes m ! p)"

text \<open>\<^verbatim>\<open>ov_model.input(name)\<close>: the first input carrying the name; raises when there is none.\<close>

definition model_input :: "model \<Rightarrow> string \<Rightarrow> error + nat" where
  "model_input m name =
     (case find (\<lambda>p. name \<in> set (get_names m p)) (inputs m) of
        None \<Rightarrow> Inl RuntimeError
      | Some p \<Rightarrow> Inr p)"

text \<open>
  \<^verbatim>\<open>get_any_name\<close>: the smallest of the tensor's names, in the lexicographic order of
  their characters; it raises on a tensor without names.
\<close>

definition get_any_name :: "model \<Rightarrow> nat \<Rightarrow> error + string" where
  "get_any_name m p =
     (case get_names m p of
        [] \<Rightarrow> Inl RuntimeError
      | name # rest \<Rightarrow> Inr (fold min rest name))"

text \<open>
  Reading and writing one dimension of a partial shape; both raise out of range. Writing
  \<^verbatim>\<open>shape[i] = v\<close> with a Python integer \<open>v\<close> takes an unsigned 64-bit position and a
  signed 64-bit value, from which it builds the dimension; any other integer is a type
  error.
\<close>

definition shape_getitem :: "partial_shape \<Rightarrow> int \<Rightarrow> error + dimension" where
  "shape_getitem shape i =
     (if 0 \<le> i \<and> i < int (length shape) then Inr (shape ! nat i) else Inl RuntimeError)"

definition shape_setitem :: "partial_shape \<Rightarrow> int \<Rightarrow> int \<Rightarrow> error + partial_shape" where
  "shape_setitem shape i v =
     (if i < 0 \<or> 2 ^ 64 \<le> i \<or> v < - (2 ^ 63) \<or> 2 ^ 63 \<le> v then Inl TypeError
      else if i < int (length shape) then Inr (shape[nat i := Dimension v])
      else Inl RuntimeError)"

text \<open>Item assignment on a Python list: a negative index counts from the end.\<close>

definition list_setitem :: "'a list \<Rightarrow> int \<Rightarrow> 'a \<Rightarrow> error + 'a list" where
  "list_setitem xs i v =
     (let n = int (length xs); j = (if i < 0 then i + n else i)
      in if 0 \<le> j \<and> j < n then Inr (xs[nat j := v]) else Inl IndexError)"

text \<open>\<^verbatim>\<open>input.get_node().set_partial_shape(shape)\<close>: only a Parameter has the method.\<close>

definition set_partial_shape :: "model \<Rightarrow> nat \<Rightarrow> partial_shape \<Rightarrow> error + model" where
  "set_partial_shape m p shape =
     (case attribute (nodes m ! p) of
        Parameter_attr t old \<Rightarrow>
          Inr (m\<lparr>nodes := (nodes m)[p := (nodes m ! p)\<lparr>attribute := Parameter_attr t shape\<rparr>]\<rparr>)
      | _ \<Rightarrow> Inl AttributeError)"

text \<open>The consumer edges of a port: every (node, argument position) that reads it.\<close>

definition get_target_inputs :: "model \<Rightarrow> nat \<Rightarrow> (nat \<times> nat) list" where
  "get_target_inputs m p =
     concat (map (\<lambda>c. map (\<lambda>k. (c, k))
                        (filter (\<lambda>k. arguments (nodes m ! c) ! k = p)
                                [0..<length (arguments (nodes m ! c))]))
                 [0..<length (nodes m)])"

definition replace_source_output :: "model \<Rightarrow> nat \<times> nat \<Rightarrow> nat \<Rightarrow> model" where
  "replace_source_output m consumer src =
     (case consumer of (c, k) \<Rightarrow>
        m\<lparr>nodes := (nodes m)[c := (nodes m ! c)\<lparr>arguments := (arguments (nodes m ! c))[k := src]\<rparr>]\<rparr>)"

definition set_arguments :: "model \<Rightarrow> nat \<Rightarrow> nat list \<Rightarrow> model" where
  "set_arguments m op args = m\<lparr>nodes := (nodes m)[op := (nodes m ! op)\<lparr>arguments := args\<rparr>]\<rparr>"

definition add_names :: "model \<Rightarrow> nat \<Rightarrow> string list \<Rightarrow> model" where
  "add_names m p new =
     m\<lparr>nodes := (nodes m)[p := (nodes m ! p)
          \<lparr>names := names (nodes m ! p) @ filter (\<lambda>x. x \<notin> set (names (nodes m ! p))) new\<rparr>]\<rparr>"

definition add_parameters :: "model \<Rightarrow> nat list \<Rightarrow> model" where
  "add_parameters m ps = m\<lparr>parameters := parameters m @ ps\<rparr>"

text \<open>Node construction: the new node is appended to the store and its address returned.\<close>

definition add_node :: "model \<Rightarrow> node \<Rightarrow> model \<times> nat" where
  "add_node m n = (m\<lparr>nodes := nodes m @ [n]\<rparr>, length (nodes m))"

definition opset13_parameter :: "model \<Rightarrow> string \<Rightarrow> element_type \<Rightarrow> partial_shape \<Rightarrow> model \<times> nat" where
  "opset13_parameter m name dtype shape =
     add_node m \<lparr>type_name = ''Parameter'', friendly_name = name, arguments = [],
                 attribute = Parameter_attr dtype shape, names = [],
                 output_partial_shape = shape, output_element_type = dtype\<rparr>"

fun constant_shape :: "constant_value \<Rightarrow> partial_shape" where
  "constant_shape (Scalar v) = []"
| "constant_shape (Vector vs) = [Dimension (int (length vs))]"
| "constant_shape (Zero t) = []"

fun constant_type :: "constant_value \<Rightarrow> element_type" where
  "constant_type (Scalar v) = i64"
| "constant_type (Vector vs) = i64"
| "constant_type (Zero t) = t"

definition opset13_constant :: "model \<Rightarrow> constant_value \<Rightarrow> model \<times> nat" where
  "opset13_constant m v =
     add_node m \<lparr>type_name = ''Constant'', friendly_name = [], arguments = [],
                 attribute = Value v, names = [],
                 output_partial_shape = constant_shape v, output_element_type = constant_type v\<rparr>"

text \<open>Every other operation is validated by the engine when it is constructed.\<close>

definition opset13_op ::
  "engine \<Rightarrow> model \<Rightarrow> string \<Rightarrow> nat list \<Rightarrow> attribute \<Rightarrow> error + model \<times> nat" where
  "opset13_op E m t args a =
     (let n = \<lparr>type_name = t, friendly_name = [], arguments = args, attribute = a, names = [],
               output_partial_shape = [], output_element_type = i64\<rparr>
      in case infer_node E m n of
           None \<Rightarrow> Inl NodeValidationFailure
         | Some (shape, dtype) \<Rightarrow>
             Inr (add_node m (n\<lparr>output_partial_shape := shape, output_element_type := dtype\<rparr>)))"

definition opset13_gather :: "engine \<Rightarrow> model \<Rightarrow> nat \<Rightarrow> nat \<Rightarrow> nat \<Rightarrow> error + model \<times> nat" where
  "opset13_gather E m data indices axis = opset13_op E m ''Gather'' [data, indices, axis] No_attribute"

definition opset13_shape_of :: "engine \<Rightarrow> model \<Rightarrow> nat \<Rightarrow> element_type \<Rightarrow> error + model \<times> nat" where
  "opset13_shape_of E m x output_type = opset13_op E m ''ShapeOf'' [x] (Output_type output_type)"

definition opset13_concat :: "engine \<Rightarrow> model \<Rightarrow> nat list \<Rightarrow> int \<Rightarrow> error + model \<times> nat" where
  "opset13_concat E m xs axis = opset13_op E m ''Concat'' xs (Axis axis)"

definition opset13_broadcast :: "engine \<Rightarrow> model \<Rightarrow> nat \<Rightarrow> nat \<Rightarrow> error + model \<times> nat" where
  "opset13_broadcast E m data target_shape =
     opset13_op E m ''Broadcast'' [data, target_shape] No_attribute"

text \<open>
  \<^verbatim>\<open>validate_nodes_and_infer_types\<close>: the structure of the graph stays; every node's
  output shape and type is inferred again. The output of a Parameter is its declared
  type and shape; what the other nodes get is the engine's business.
\<close>

definition infer_output :: "model \<Rightarrow> (nat \<Rightarrow> partial_shape \<times> element_type) \<Rightarrow> nat \<Rightarrow> node" where
  "infer_output m f i =
     (let n = nodes m ! i
      in case attribute n of
           Parameter_attr t shape \<Rightarrow> n\<lparr>output_partial_shape := shape, output_element_type := t\<rparr>
         | _ \<Rightarrow> n\<lparr>output_partial_shape := fst (f i), output_element_type := snd (f i)\<rparr>)"

definition validate_nodes_and_infer_types :: "engine \<Rightarrow> state \<Rightarrow> unit result" where
  "validate_nodes_and_infer_types E s =
     (case infer_model E (ov_model s) of
        None \<Rightarrow> Failed NodeValidationFailure s
      | Some f \<Rightarrow>
          Done () (s\<lparr>ov_model := (ov_model s)
                     \<lparr>nodes := map (infer_output (ov_model s) f) [0..<length (nodes (ov_model s))]\<rparr>\<rparr>))"

text \<open>
  \<^verbatim>\<open>get_ops\<close>: the nodes of the graph, that is the parameters and whatever the results
  and sinks depend on. A node left in the store that nothing reaches is not in the graph.
\<close>

definition sources :: "model \<Rightarrow> nat list \<Rightarrow> nat list" where
  "sources m xs =
     concat (map (\<lambda>i. if i < length (nodes m) then arguments (nodes m ! i) else []) xs)"

fun reach :: "model \<Rightarrow> nat \<Rightarrow> nat list \<Rightarrow> nat list" where
  "reach m 0 xs = xs"
| "reach m (Suc k) xs = reach m k (remdups (xs @ sources m xs))"

definition get_ops :: "model \<Rightarrow> nat list" where
  "get_ops m =
     filter (\<lambda>i. i \<in> set (reach m (length (nodes m)) (results m @ sinks m @ parameters m)))
            [0..<length (nodes m)]"

definition get_sinks :: "model \<Rightarrow> nat list" where
  "get_sinks m = sinks m"

definition apply_make_stateful_transformation ::
  "engine \<Rightarrow> (string \<times> string) list \<Rightarrow> state \<Rightarrow> unit result" where
  "apply_make_stateful_transformation E input_output_map s =
     (case make_stateful_transformation E (ov_model s) input_output_map of
        None \<Rightarrow> Failed RuntimeError s
      | Some m \<Rightarrow> Done () (s\<lparr>ov_model := m\<rparr>))"

subsection \<open>Graph introspection\<close>

definition model_has_name :: "model \<Rightarrow> string \<Rightarrow> bool" where
  "model_has_name m name = (name \<in> set (concat (map (get_names m) (inputs m @ outputs m))))"

definition model_has_input :: "model \<Rightarrow> string \<Rightarrow> bool" where
  "model_has_input m name = (name \<in> set (concat (map (get_names m) (inputs m))))"

definition model_has_cache_reorder :: "model \<Rightarrow> bool" where
  "model_has_cache_reorder m = model_has_input m ''beam_idx''"

definition model_has_state :: "model \<Rightarrow> bool" where
  "model_has_state m = (length (get_sinks m) > 0)"

subsection \<open>fuse_cache_reorder\<close>

text \<open>
  The loop over \<^verbatim>\<open>key_value_input_names\<close>. The consumers are read before the gather is
  built, so the gather's own edge to the port is not among them.
\<close>

fun fuse_loop :: "engine \<Rightarrow> nat \<Rightarrow> int \<Rightarrow> string list \<Rightarrow> state \<Rightarrow> unit result" where
  "fuse_loop E beam_idx gather_dim [] s = Done () s"
| "fuse_loop E beam_idx gather_dim (input_name # rest) s =
     (case model_input (ov_model s) input_name of
        Inl e \<Rightarrow> Failed e s
      | Inr parameter_output_port \<Rightarrow>
          (let consumers = get_target_inputs (ov_model s) parameter_output_port
           in case opset13_constant (ov_model s) (Scalar gather_dim) of (m1, axis) \<Rightarrow>
                (case opset13_gather E m1 parameter_output_port beam_idx axis of
                   Inl e \<Rightarrow> Failed e (s\<lparr>ov_model := m1\<rparr>)
                 | Inr (m2, gather) \<Rightarrow>
                     fuse_loop E beam_idx gather_dim rest
                       (s\<lparr>ov_model :=
                            fold (\<lambda>consumer m. replace_source_output m consumer gather)
                                 consumers m2\<rparr>))))"

definition fuse_cache_reorder :: "engine \<Rightarrow> string list \<Rightarrow> int \<Rightarrow> state \<Rightarrow> unit result" where
  "fuse_cache_reorder E key_value_input_names gather_dim s =
     (if model_has_name (ov_model s) ''beam_idx'' then Failed AssertionError s
      else case model_input (ov_model s) ''input_ids'' of
        Inl e \<Rightarrow> Failed e s
      | Inr input_ids \<Rightarrow>
          (case shape_getitem (get_partial_shape (ov_model s) input_ids) 0 of
             Inl e \<Rightarrow> Failed e s
           | Inr input_batch \<Rightarrow>
               (case opset13_parameter (ov_model s) ''beam_idx'' i32 [input_batch] of
                  (m1, beam_idx) \<Rightarrow>
                    (let m2 = add_names m1 beam_idx [''beam_idx''];
                         m3 = add_parameters m2 [beam_idx];
                         s3 = s\<lparr>ov_model := m3,
                                not_kv_inputs := not_kv_inputs s @ [last (inputs m3)]\<rparr>
                     in bind_result (fuse_loop E beam_idx gather_dim key_value_input_names s3)
                          (\<lambda>_. validate_nodes_and_infer_types E)))))"

subsection \<open>build_state_initializer\<close>

datatype dim_entry = Extent int | Node_output nat

text \<open>
  \<^verbatim>\<open>[opset13.constant(np.array([dim], dtype=np.int64)) if type(dim) is int else dim
  for dim in dims]\<close>
\<close>

fun dim_constants :: "model \<Rightarrow> dim_entry list \<Rightarrow> model \<times> nat list" where
  "dim_constants m [] = (m, [])"
| "dim_constants m (Extent v # dims) =
     (case opset13_constant m (Vector [v]) of (m1, c) \<Rightarrow>
        (case dim_constants m1 dims of (m2, cs) \<Rightarrow> (m2, c # cs)))"
| "dim_constants m (Node_output p # dims) =
     (case dim_constants m dims of (m2, cs) \<Rightarrow> (m2, p # cs))"

fun initializer_loop :: "engine \<Rightarrow> int \<Rightarrow> nat \<Rightarrow> nat list \<Rightarrow> state \<Rightarrow> unit result" where
  "initializer_loop E batch_dim batch [] s = Done () s"
| "initializer_loop E batch_dim batch (op # ops) s =
     (if get_type_name (ov_model s) op = ''ReadValue'' then
        (case list_setitem (map (\<lambda>dim. Extent (min_length dim)) (get_partial_shape (ov_model s) op))
                           batch_dim (Node_output batch) of
           Inl e \<Rightarrow> Failed e s
         | Inr dims \<Rightarrow>
             (case dim_constants (ov_model s) dims of (m1, dims') \<Rightarrow>
                (case opset13_concat E m1 dims' 0 of
                   Inl e \<Rightarrow> Failed e (s\<lparr>ov_model := m1\<rparr>)
                 | Inr (m2, shape) \<Rightarrow>
                     (case opset13_constant m2 (Zero (get_output_element_type m2 op)) of
                        (m3, zero) \<Rightarrow>
                          (case opset13_broadcast E m3 zero shape of
                             Inl e \<Rightarrow> Failed e (s\<lparr>ov_model := m3\<rparr>)
                           | Inr (m4, broadcast) \<Rightarrow>
                               initializer_loop E batch_dim batch ops
                                 (s\<lparr>ov_model := set_arguments m4 op [broadcast]\<rparr>))))))
      else initializer_loop E batch_dim batch ops s)"

definition build_state_initializer :: "engine \<Rightarrow> int \<Rightarrow> state \<Rightarrow> unit result" where
  "build_state_initializer E batch_dim s =
     (case model_input (ov_model s) ''input_ids'' of
        Inl e \<Rightarrow> Failed e s
      | Inr input_ids \<Rightarrow>
          (case opset13_shape_of E (ov_model s) input_ids i64 of
             Inl e \<Rightarrow> Failed e s
           | Inr (m1, shape_of) \<Rightarrow>
               (case opset13_constant m1 (Vector [0]) of (m2, indices) \<Rightarrow>
                  (case opset13_constant m2 (Scalar 0) of (m3, axis) \<Rightarrow>
                     (case opset13_gather E m3 shape_of indices axis of
                        Inl e \<Rightarrow> Failed e (s\<lparr>ov_model := m3\<rparr>)
                      | Inr (m4, batch) \<Rightarrow>
                          bind_result
                            (initializer_loop E batch_dim batch (get_ops m4) (s\<lparr>ov_model := m4\<rparr>))
                            (\<lambda>_. validate_nodes_and_infer_types E))))))"

subsection \<open>make_stateful\<close>

definition warning :: "string \<Rightarrow> string" where
  "warning name =
     ''[ WARNING ] Rank of '' @ name @ '' input of the model is not 2, batch size is not set''"

text \<open>The loop over \<^verbatim>\<open>not_kv_inputs\<close> of the pinned case.\<close>

fun set_batch_size :: "int \<Rightarrow> nat list \<Rightarrow> state \<Rightarrow> unit result" where
  "set_batch_size num_beams_and_batch [] s = Done () s"
| "set_batch_size num_beams_and_batch (input # rest) s =
     (let shape = get_partial_shape (ov_model s) input
      in if length shape \<le> 2 then
           (case shape_setitem shape 0 num_beams_and_batch of
              Inl e \<Rightarrow> Failed e s
            | Inr shape' \<Rightarrow>
                (case set_partial_shape (ov_model s) input shape' of
                   Inl e \<Rightarrow> Failed e s
                 | Inr m \<Rightarrow> set_batch_size num_beams_and_batch rest (s\<lparr>ov_model := m\<rparr>)))
         else
           (case get_any_name (ov_model s) input of
              Inl e \<Rightarrow> Failed e s
            | Inr name \<Rightarrow>
                set_batch_size num_beams_and_batch rest (s\<lparr>stdout := stdout s @ [warning name]\<rparr>)))"

text \<open>
  The loop over \<^verbatim>\<open>zip(key_value_input_names, key_value_output_names)\<close>. The dictionary
  is an association list in insertion order; assigning to a key already present replaces
  its value in place.
\<close>

fun kv_loop ::
  "int \<Rightarrow> int \<Rightarrow> int option \<Rightarrow> (string \<times> string) list \<Rightarrow> (string \<times> string) list \<Rightarrow> state
     \<Rightarrow> (string \<times> string) list result" where
  "kv_loop batch_dim num_attention_heads num_beams_and_batch [] input_output_map s =
     Done input_output_map s"
| "kv_loop batch_dim num_attention_heads num_beams_and_batch (kv_name_pair # rest) input_output_map s =
     (let input_output_map' = AList.update (fst kv_name_pair) (snd kv_name_pair) input_output_map
      in case num_beams_and_batch of
           None \<Rightarrow> kv_loop batch_dim num_attention_heads num_beams_and_batch rest input_output_map' s
         | Some b \<Rightarrow>
             (case model_input (ov_model s) (fst kv_name_pair) of
                Inl e \<Rightarrow> Failed e s
              | Inr input \<Rightarrow>
                  (case shape_setitem (get_partial_shape (ov_model s) input) batch_dim
                          (b * num_attention_heads) of
                     Inl e \<Rightarrow> Failed e s
                   | Inr shape \<Rightarrow>
                       (case set_partial_shape (ov_model s) input shape of
                          Inl e \<Rightarrow> Failed e s
                        | Inr m \<Rightarrow>
                            kv_loop batch_dim num_attention_heads num_beams_and_batch rest
                              input_output_map' (s\<lparr>ov_model := m\<rparr>)))))"

definition make_stateful ::
  "engine \<Rightarrow> string list \<Rightarrow> string list \<Rightarrow> int \<Rightarrow> int \<Rightarrow> int option \<Rightarrow> state \<Rightarrow> unit result" where
  "make_stateful E key_value_input_names key_value_output_names batch_dim num_attention_heads
       num_beams_and_batch s =
     bind_result
       (case num_beams_and_batch of
          None \<Rightarrow> Done () s
        | Some b \<Rightarrow> set_batch_size b (not_kv_inputs s) s)
       (\<lambda>_ s1. bind_result
          (kv_loop batch_dim num_attention_heads num_beams_and_batch
             (zip key_value_input_names key_value_output_names) [] s1)
          (\<lambda>input_output_map s2. bind_result
             (case num_beams_and_batch of
                None \<Rightarrow> Done () s2
              | Some b \<Rightarrow> validate_nodes_and_infer_types E s2)
             (\<lambda>_ s3. bind_result
                (apply_make_stateful_transformation E input_output_map s3)
                (\<lambda>_ s4. case num_beams_and_batch of
                           None \<Rightarrow> build_state_initializer E batch_dim s4
                         | Some b \<Rightarrow> Done () s4))))"

text \<open>
  Lines 95 to 115 of the pinned case on their own: both loops and the re-validation,
  up to the call of the engine's transformation.
\<close>

definition pin_batch ::
  "engine \<Rightarrow> string list \<Rightarrow> string list \<Rightarrow> int \<Rightarrow> int \<Rightarrow> int \<Rightarrow> state
     \<Rightarrow> (string \<times> string) list result" where
  "pin_batch E key_value_input_names key_value_output_names batch_dim num_attention_heads b s =
     bind_result (set_batch_size b (not_kv_inputs s) s)
       (\<lambda>_ s1. bind_result
          (kv_loop batch_dim num_attention_heads (Some b)
             (zip key_value_input_names key_value_output_names) [] s1)
          (\<lambda>input_output_map s2. bind_result (validate_nodes_and_infer_types E s2)
             (\<lambda>_ s3. Done input_output_map s3)))"

subsection \<open>patch_stateful\<close>

record model_metadata =
  key_value_input_names :: "string list"
  key_value_output_names :: "string list"
  model_type :: string
  num_attention_heads :: int

definition raise_if_openvino_is_too_old :: "engine \<Rightarrow> state \<Rightarrow> unit result" where
  "raise_if_openvino_is_too_old E s =
     (if is_openvino_version E ''<='' ''2023.2'' then
        Failed (ValueError
          (''Could not create or use stateful model when using old version of openvino==''
             @ ov_version E @ ''. Install openvino>=2023.3.0.'')) s
      else Done () s)"

definition patch_stateful :: "engine \<Rightarrow> model_metadata \<Rightarrow> state \<Rightarrow> unit result" where
  "patch_stateful E model s =
     bind_result (raise_if_openvino_is_too_old E s)
       (\<lambda>_ s0.
          (let not_kv_inputs' =
                 filter (\<lambda>input. \<not> list_ex (\<lambda>name. name \<in> set (key_value_input_names model))
                                           (get_names (ov_model s0) input))
                        (inputs (ov_model s0));
               batch_dim = (if model_type model = ''chatglm'' then 1 else 0)
           in bind_result
                (fuse_cache_reorder E (key_value_input_names model) batch_dim
                   (s0\<lparr>not_kv_inputs := not_kv_inputs'\<rparr>))
                (\<lambda>_ s1.
                   (let num_attention_heads' =
                          (if model_type model = ''bloom'' then num_attention_heads model else 1)
                    in make_stateful E (key_value_input_names model) (key_value_output_names model)
                         batch_dim num_attention_heads' None s1))))"

subsection \<open>A reference engine and example graphs\<close>

text \<open>
  Modelled from the spec: the engine's transformation of matched input/output pairs into
  persistent state (spec section 4.4, step 3), which is not part of the repository. Each
  pair is deleted from the graph's inputs and outputs; the input becomes a persistent-state
  read where it was consumed and the output a persistent-state write of what used to flow
  into it. It raises when a name of the mapping is not a port of the graph.
\<close>

fun stateful_pairs :: "(string \<times> string) list \<Rightarrow> model \<Rightarrow> model option" where
  "stateful_pairs [] m = Some m"
| "stateful_pairs (pair # rest) m =
     (case find (\<lambda>p. fst pair \<in> set (get_names m p)) (parameters m) of
        None \<Rightarrow> None
      | Some p \<Rightarrow>
          (case find (\<lambda>r. snd pair \<in> set (get_names m r)) (results m) of
             None \<Rightarrow> None
           | Some r \<Rightarrow>
               stateful_pairs rest
                 (m\<lparr>nodes := (nodes m)
                       [p := (nodes m ! p)\<lparr>type_name := ''ReadValue'', attribute := No_attribute,
                                            names := []\<rparr>,
                        r := (nodes m ! r)\<lparr>type_name := ''Assign'', names := []\<rparr>],
                     parameters := removeAll p (parameters m),
                     results := removeAll r (results m),
                     sinks := sinks m @ [r]\<rparr>)))"

text \<open>
  An engine that accepts every node and every graph and leaves the inferred outputs of
  the nodes other than parameters as they are.
\<close>

definition reference_engine :: engine where
  "reference_engine =
     \<lparr>ov_version = ''2023.3.0'',
      is_openvino_version = (\<lambda>operation v. False),
      infer_node = (\<lambda>m n. Some (output_partial_shape n, output_element_type n)),
      infer_model = (\<lambda>m. Some (\<lambda>i. (output_partial_shape (nodes m ! i),
                                       output_element_type (nodes m ! i)))),
      make_stateful_transformation = (\<lambda>m input_output_map. stateful_pairs input_output_map m)\<rparr>"

definition old_engine :: engine where
  "old_engine =
     reference_engine\<lparr>ov_version := ''2023.2.0'',
                       is_openvino_version := (\<lambda>operation v. operation = ''<='' \<and> v = ''2023.2'')\<rparr>"

definition dynamic :: dimension where
  "dynamic = \<lparr>min_length = 0, max_length = - 1\<rparr>"

definition example_parameter :: "string \<Rightarrow> element_type \<Rightarrow> partial_shape \<Rightarrow> node" where
  "example_parameter name t shape =
     \<lparr>type_name = ''Parameter'', friendly_name = name, arguments = [],
      attribute = Parameter_attr t shape, names = [name],
      output_partial_shape = shape, output_element_type = t\<rparr>"

definition example_op :: "string \<Rightarrow> nat list \<Rightarrow> string list \<Rightarrow> element_type \<Rightarrow> partial_shape \<Rightarrow> node" where
  "example_op t args ns dtype shape =
     \<lparr>type_name = t, friendly_name = [], arguments = args, attribute = No_attribute, names = ns,
      output_partial_shape = shape, output_element_type = dtype\<rparr>"

text \<open>
  One decoder step with one key-value pair: the inputs \<open>input_ids\<close> (batch, sequence)
  and \<open>past_key\<close> (batch, heads, past, width), an attention node reading both, whose
  output is the result \<open>present_key\<close>, and a projection of it, the result \<open>logits\<close>.
\<close>

definition kv_shape :: partial_shape where
  "kv_shape = [dynamic, Dimension 8, dynamic, Dimension 64]"

definition example_model :: model where
  "example_model =
     \<lparr>nodes =
        [example_parameter ''input_ids'' i64 [dynamic, dynamic],
         example_parameter ''past_key'' f32 kv_shape,
         example_op ''Attention'' [0, 1] [''present_key''] f32 kv_shape,
         example_op ''Result'' [2] [''present_key''] f32 kv_shape,
         example_op ''MatMul'' [2] [''logits''] f32 [dynamic, dynamic, Dimension 32000],
         example_op ''Result'' [4] [''logits''] f32 [dynamic, dynamic, Dimension 32000]],
      parameters = [0, 1], results = [3, 5], sinks = []\<rparr>"

definition example_state :: state where
  "example_state = \<lparr>ov_model = example_model, not_kv_inputs = [0], stdout = []\<rparr>"

definition example_metadata :: model_metadata where
  "example_metadata =
     \<lparr>key_value_input_names = [''past_key''], key_value_output_names = [''present_key''],
      model_type = ''llama'', num_attention_heads = 8\<rparr>"

text \<open>
  A graph whose only port named \<open>beam_idx\<close> is an output: the input \<open>input_ids\<close>,
  a conversion of it whose output tensor is named \<open>beam_idx\<close>, and the result that
  reads this tensor.
\<close>

definition beam_output_model :: model where
  "beam_output_model =
     \<lparr>nodes =
        [example_parameter ''input_ids'' i64 [dynamic, dynamic],
         example_op ''Convert'' [0] [''beam_idx''] i32 [dynamic, dynamic],
         example_op ''Result'' [1] [''beam_idx''] i32 [dynamic, dynamic]],
      parameters = [0], results = [2], sinks = []\<rparr>"

definition beam_output_state :: state where
  "beam_output_state = \<lparr>ov_model = beam_output_model, not_kv_inputs = [0], stdout = []\<rparr>"

subsection \<open>Notions used in the statements\<close>

text \<open>
  \<open>keeps m m'\<close>: the graph \<open>m'\<close> has the nodes of \<open>m\<close> at the same addresses, with
  the same type, attribute and names, and the same inputs, outputs and sinks; arguments and
  inferred outputs may differ. \<open>valid_parameters\<close>: the inputs are nodes of the store.
  \<open>gathered m b gd p g\<close>: the node \<open>g\<close> is a Gather reading the port \<open>p\<close> with
  the indices \<open>b\<close> along the axis held by a constant \<open>gd\<close>.
\<close>

definition keeps :: "model \<Rightarrow> model \<Rightarrow> bool" where
  "keeps m m' \<longleftrightarrow>
     length (nodes m) \<le> length (nodes m') \<and> parameters m' = parameters m \<and>
     results m' = results m \<and> sinks m' = sinks m \<and>
     (\<forall>i<length (nodes m).
        type_name (nodes m' ! i) = type_name (nodes m ! i) \<and>
        friendly_name (nodes m' ! i) = friendly_name (nodes m ! i) \<and>
        attribute (nodes m' ! i) = attribute (nodes m ! i) \<and>
        names (nodes m' ! i) = names (nodes m ! i))"

definition valid_parameters :: "model \<Rightarrow> bool" where
  "valid_parameters m \<longleftrightarrow> (\<forall>p\<in>set (parameters m). p < length (nodes m))"

definition gathered :: "model \<Rightarrow> nat \<Rightarrow> int \<Rightarrow> nat \<Rightarrow> nat \<Rightarrow> bool" where
  "gathered m b gd p g \<longleftrightarrow>
     g < length (nodes m) \<and> type_name (nodes m ! g) = ''Gather'' \<and>
     (\<exists>axis<length (nodes m).
        arguments (nodes m ! g) = [p, b, axis] \<and> type_name (nodes m ! axis) = ''Constant'' \<and>
        attribute (nodes m ! axis) = Value (Scalar gd))"

definition beam_idx_parameter :: "dimension \<Rightarrow> node" where
  "beam_idx_parameter d =
     \<lparr>type_name = ''Parameter'', friendly_name = ''beam_idx'', arguments = [],
      attribute = Parameter_attr i32 [d], names = [''beam_idx''],
      output_partial_shape = [d], output_element_type = i32\<rparr>"

definition with_beam_idx :: "model \<Rightarrow> dimension \<Rightarrow> model" where
  "with_beam_idx m d =
     m\<lparr>nodes := nodes m @ [beam_idx_parameter d], parameters := parameters m @ [length (nodes m)]\<rparr>"

definition fused_example :: state where
  "fused_example = state_of (fuse_cache_reorder reference_engine [''past_key''] 0 example_state)"

definition twice_fused_example :: state where
  "twice_fused_example =
     state_of (fuse_cache_reorder reference_engine [''past_key'', ''past_key''] 0 example_state)"

text \<open>
  \<open>same_but_attributes m m'\<close>: the two graphs differ at most in the attributes of their
  nodes, which is all that \<^verbatim>\<open>set_partial_shape\<close> writes. \<open>static v\<close>: the static
  dimension of extent \<open>v\<close>. \<open>shares_tensor_names m\<close>: every output of the graph reads
  one tensor and carries its names.
\<close>

definition static :: "int \<Rightarrow> dimension" where
  "static v = \<lparr>min_length = v, max_length = v\<rparr>"

definition shares_tensor_names :: "model \<Rightarrow> bool" where
  "shares_tensor_names m =
     list_all (\<lambda>r. case arguments (nodes m ! r) of
                       [src] \<Rightarrow> get_names m r = get_names m src
                     | _ \<Rightarrow> False)
              (outputs m)"

definition same_but_attributes :: "model \<Rightarrow> model \<Rightarrow> bool" where
  "same_but_attributes m m' \<longleftrightarrow>
     length (nodes m') = length (nodes m) \<and> parameters m' = parameters m \<and>
     results m' = results m \<and> sinks m' = sinks m \<and>
     (\<forall>i. type_name (nodes m' ! i) = type_name (nodes m ! i) \<and>
          friendly_name (nodes m' ! i) = friendly_name (nodes m ! i) \<and>
          arguments (nodes m' ! i) = arguments (nodes m ! i) \<and>
          names (nodes m' ! i) = names (nodes m ! i) \<and>
          output_partial_shape (nodes m' ! i) = output_partial_shape (nodes m ! i) \<and>
          output_element_type (nodes m' ! i) = output_element_type (nodes m ! i))"

text \<open>
  The example graph with one more input, of rank 3, whose tensor has two names; and the
  same graph with that tensor left without a name.
\<close>

definition bias_model :: model where
  "bias_model =
     example_model
       \<lparr>nodes := nodes example_model
                   @ [(example_parameter ''position_bias'' f32 [dynamic, dynamic, dynamic])
                        \<lparr>names := [''position_bias'', ''alibi'']\<rparr>],
        parameters := [0, 1, 6]\<rparr>"

definition bias_state :: state where
  "bias_state = \<lparr>ov_model = bias_model, not_kv_inputs = [0, 6], stdout = []\<rparr>"

definition unnamed_bias_state :: state where
  "unnamed_bias_state =
     bias_state\<lparr>ov_model := bias_model
       \<lparr>nodes := nodes example_model
                   @ [(example_parameter ''position_bias'' f32 [dynamic, dynamic, dynamic])
                        \<lparr>names := []\<rparr>]\<rparr>\<rparr>"

definition pinned_example :: state where
  "pinned_example =
     state_of (pin_batch reference_engine [''past_key''] [''present_key''] 0 8 2 bias_state)"

definition unpinned_example :: state where
  "unpinned_example =
     state_of (pin_batch reference_engine [''past_key''] [''present_key''] 0 8 (- 1)
                 example_state)"


definition surplus_state :: state where
  "surplus_state = bias_state\<lparr>not_kv_inputs := [0]\<rparr>"

definition surplus_example :: state where
  "surplus_example =
     state_of (pin_batch reference_engine [''past_key'', ''position_bias''] [''present_key'']
                 0 8 2 surplus_state)"


text \<open>
  \<open>extends m m'\<close>: the graph \<open>m'\<close> is \<open>m\<close> with nodes appended to the store.
  \<open>list_index\<close>: the position a Python list index stands for.
\<close>

definition extends :: "model \<Rightarrow> model \<Rightarrow> bool" where
  "extends m m' \<longleftrightarrow>
     (\<exists>new. nodes m' = nodes m @ new) \<and> parameters m' = parameters m \<and>
     results m' = results m \<and> sinks m' = sinks m"

definition list_index :: "int \<Rightarrow> nat \<Rightarrow> nat" where
  "list_index i n = nat (if i < 0 then i + int n else i)"

text \<open>
  \<open>batch_extent m input_ids batch\<close>: the node \<open>batch\<close> gathers element 0, along axis 0,
  of the i64 shape of the port \<open>input_ids\<close>: the extent of its axis 0.
\<close>

definition batch_extent :: "model \<Rightarrow> nat \<Rightarrow> nat \<Rightarrow> bool" where
  "batch_extent m input_ids batch \<longleftrightarrow>
     type_name (nodes m ! batch) = ''Gather'' \<and>
     (\<exists>shape_of indices axis.
        arguments (nodes m ! batch) = [shape_of, indices, axis] \<and>
        type_name (nodes m ! shape_of) = ''ShapeOf'' \<and>
        arguments (nodes m ! shape_of) = [input_ids] \<and>
        attribute (nodes m ! shape_of) = Output_type i64 \<and>
        type_name (nodes m ! indices) = ''Constant'' \<and>
        attribute (nodes m ! indices) = Value (Vector [0]) \<and>
        type_name (nodes m ! axis) = ''Constant'' \<and>
        attribute (nodes m ! axis) = Value (Scalar 0))"

text \<open>
  \<open>initialized lo m batch j shape t op\<close>: the only argument of the node \<open>op\<close> is a
  Broadcast of the constant zero of type \<open>t\<close> to the shape given by a Concat along axis 0
  of one entry per dimension of \<open>shape\<close>: the node \<open>batch\<close> at position \<open>j\<close>, and at
  every other position a constant holding the minimum length of that dimension. The nodes
  of the initializer lie in the store from address \<open>lo\<close> on.
\<close>

definition initialized ::
  "nat \<Rightarrow> model \<Rightarrow> nat \<Rightarrow> nat \<Rightarrow> partial_shape \<Rightarrow> element_type \<Rightarrow> nat \<Rightarrow> bool" where
  "initialized lo m batch j shape t op \<longleftrightarrow>
     (\<exists>broadcast zero concat dims.
        arguments (nodes m ! op) = [broadcast] \<and>
        lo \<le> broadcast \<and> broadcast < length (nodes m) \<and>
        type_name (nodes m ! broadcast) = ''Broadcast'' \<and>
        arguments (nodes m ! broadcast) = [zero, concat] \<and>
        lo \<le> zero \<and> zero < length (nodes m) \<and>
        type_name (nodes m ! zero) = ''Constant'' \<and>
        attribute (nodes m ! zero) = Value (Zero t) \<and>
        lo \<le> concat \<and> concat < length (nodes m) \<and>
        type_name (nodes m ! concat) = ''Concat'' \<and>
        attribute (nodes m ! concat) = Axis 0 \<and>
        arguments (nodes m ! concat) = dims \<and>
        length dims = length shape \<and>
        (\<forall>i<length shape.
           if i = j then dims ! i = batch
           else lo \<le> dims ! i \<and> dims ! i < length (nodes m) \<and>
                type_name (nodes m ! (dims ! i)) = ''Constant'' \<and>
                attribute (nodes m ! (dims ! i)) = Value (Vector [min_length (shape ! i)])))"

definition transformed_example :: state where
  "transformed_example =
     state_of (apply_make_stateful_transformation reference_engine
                 [(''past_key'', ''present_key'')] fused_example)"

definition stateful_example :: state where
  "stateful_example = state_of (build_state_initializer reference_engine 0 transformed_example)"

definition no_input_ids_state :: state where
  "no_input_ids_state =
     \<lparr>ov_model = \<lparr>nodes = [example_parameter ''tokens'' i64 [dynamic, dynamic],
                            example_op ''Result'' [0] [''tokens''] i64 [dynamic, dynamic]],
                   parameters = [0], results = [1], sinks = []\<rparr>,
      not_kv_inputs = [0], stdout = []\<rparr>"

definition fused_along_1_example :: state where
  "fused_along_1_example =
     state_of (fuse_cache_reorder reference_engine [''past_key''] 1 example_state)"

section \<open>Properties\<close>

subsection \<open>Outcomes\<close>

lemma bind_result_Done [simp]: "bind_result (Done a s) f = f a s"
  by (simp add: bind_result_def)

lemma bind_result_Failed [simp]: "bind_result (Failed e s) f = Failed e s"
  by (simp add: bind_result_def)

subsection \<open>The example graphs\<close>

lemma examples_share_tensor_names:
  "shares_tensor_names example_model \<and> shares_tensor_names bias_model
   \<and> shares_tensor_names (ov_model unnamed_bias_state)
   \<and> shares_tensor_names (ov_model no_input_ids_state)"
  by code_simp

subsection \<open>Introspection and the precondition of the fuser\<close>

lemma has_name_split:
  "model_has_name m name =
     (model_has_input m name \<or> name \<in> set (concat (map (get_names m) (outputs m))))"
  by (auto simp: model_has_name_def model_has_input_def)

text \<open>
  Claim C8. The precondition of \<open>fuse_cache_reorder\<close> looks at the names of inputs and
  outputs (\<open>model_has_name\<close>), the query \<open>model_has_cache_reorder\<close> at inputs only.
  A name is a port name exactly when it is an input name or an output name, so the query
  implies the precondition's test; and whenever an output is named \<open>beam_idx\<close>,
  \<open>fuse_cache_reorder\<close> fails its assertion and leaves the state as it was, whatever its
  arguments. The converse fails: on the graph whose input \<open>input_ids\<close> is converted
  into a tensor named \<open>beam_idx\<close> that a result reads, the only port of that name is
  the output, the query answers no, and \<open>fuse_cache_reorder\<close> fails its assertion.
\<close>

theorem precondition_scans_outputs:
  "(\<forall>m name. model_has_name m name =
       (model_has_input m name \<or> name \<in> set (concat (map (get_names m) (outputs m)))))
   \<and> (\<forall>m. model_has_cache_reorder m \<longrightarrow> model_has_name m ''beam_idx'')
   \<and> (\<forall>E kv_inputs gather_dim s.
         ''beam_idx'' \<in> set (concat (map (get_names (ov_model s)) (outputs (ov_model s))))
         \<longrightarrow> fuse_cache_reorder E kv_inputs gather_dim s = Failed AssertionError s)
   \<and> shares_tensor_names beam_output_model
   \<and> ''beam_idx'' \<in> set (concat (map (get_names beam_output_model) (outputs beam_output_model)))
   \<and> \<not> model_has_input beam_output_model ''beam_idx''
   \<and> \<not> model_has_cache_reorder beam_output_model
   \<and> model_has_name beam_output_model ''beam_idx''
   \<and> (\<forall>E kv_inputs gather_dim.
         fuse_cache_reorder E kv_inputs gather_dim beam_output_state
           = Failed AssertionError beam_output_state)"
proof -
  have a: "\<not> model_has_cache_reorder beam_output_model" by code_simp
  have a': "\<not> model_has_input beam_output_model ''beam_idx''" by code_simp
  have b: "model_has_name beam_output_model ''beam_idx''" by code_simp
  have b': "''beam_idx'' \<in> set (concat (map (get_names beam_output_model)
                                        (outputs beam_output_model)))"
    by code_simp
  have c: "ov_model beam_output_state = beam_output_model"
    by (simp add: beam_output_state_def)
  have d: "shares_tensor_names beam_output_model" by code_simp
  have e: "\<forall>m. model_has_cache_reorder m \<longrightarrow> model_has_name m ''beam_idx''"
    by (simp add: has_name_split model_has_cache_reorder_def)
  have f: "\<forall>E kv_inputs gather_dim s.
         ''beam_idx'' \<in> set (concat (map (get_names (ov_model s)) (outputs (ov_model s))))
         \<longrightarrow> fuse_cache_reorder E kv_inputs gather_dim s = Failed AssertionError s"
    by (simp add: has_name_split fuse_cache_reorder_def)
  have g: "\<forall>E kv_inputs gather_dim.
         fuse_cache_reorder E kv_inputs gather_dim beam_output_state
           = Failed AssertionError beam_output_state"
    using b by (simp add: fuse_cache_reorder_def c)
  have h: "\<forall>m name. model_has_name m name =
       (model_has_input m name \<or> name \<in> set (concat (map (get_names m) (outputs m))))"
    using has_name_split by blast
  show ?thesis
    by (intro conjI h e f d b' a' a b g)
qed

theorem precondition_scans_outputs_witness:
  "''beam_idx'' \<in> set (concat (map (get_names (ov_model beam_output_state))
                                  (outputs (ov_model beam_output_state))))
   \<and> \<not> model_has_cache_reorder (ov_model beam_output_state)
   \<and> fuse_cache_reorder reference_engine [''past_key''] 0 beam_output_state
       = Failed AssertionError beam_output_state"
proof -
  have a: "''beam_idx'' \<in> set (concat (map (get_names (ov_model beam_output_state))
                                       (outputs (ov_model beam_output_state))))"
    by code_simp
  have b: "\<not> model_has_cache_reorder (ov_model beam_output_state)" by code_simp
  note T = precondition_scans_outputs
             [THEN conjunct2, THEN conjunct2, THEN conjunct1, rule_format,
              of beam_output_state reference_engine "[''past_key'']" 0, OF a]
  show ?thesis
    by (intro conjI a b T)
qed

subsection \<open>The orchestrator\<close>

text \<open>
  Claim C3. When the engine's version is at or below the threshold, that is when
  \<^verbatim>\<open>is_openvino_version("<=", "2023.2")\<close> holds, \<open>patch_stateful\<close> raises the
  unsupported-version error, whose message carries the version the engine reports, and
  the state it leaves is the state it was given: nothing of the graph has been touched.
\<close>

theorem patch_stateful_too_old:
  "is_openvino_version E ''<='' ''2023.2'' \<Longrightarrow>
     patch_stateful E model s =
       Failed (ValueError
         (''Could not create or use stateful model when using old version of openvino==''
            @ ov_version E @ ''. Install openvino>=2023.3.0.'')) s"
  by (simp add: patch_stateful_def raise_if_openvino_is_too_old_def)

theorem patch_stateful_too_old_witness:
  "is_openvino_version old_engine ''<='' ''2023.2''
   \<and> patch_stateful old_engine example_metadata example_state =
       Failed (ValueError
         ''Could not create or use stateful model when using old version of openvino==2023.2.0. Install openvino>=2023.3.0.'')
         example_state"
proof -
  have h: "is_openvino_version old_engine ''<='' ''2023.2''"
    by (simp add: old_engine_def)
  have v: "ov_version old_engine = ''2023.2.0''"
    by (simp add: old_engine_def)
  show ?thesis
    using h patch_stateful_too_old [OF h, of example_metadata example_state] by (simp add: v)
qed

text \<open>
  Claim C5. Past the version gate, \<open>patch_stateful\<close> is \<open>fuse_cache_reorder\<close> followed
  by \<open>make_stateful\<close>, where the list of non-key-value inputs holds exactly the graph
  inputs none of whose names is a key-value input name, \<open>batch_dim\<close> is 1 for the
  family \<open>chatglm\<close> and 0 for every other, \<open>num_attention_heads\<close> is the configured
  count for the family \<open>bloom\<close> and 1 otherwise, and \<open>num_beams_and_batch\<close> is
  \<open>None\<close>.
\<close>

theorem patch_stateful_arguments:
  "\<not> is_openvino_version E ''<='' ''2023.2'' \<Longrightarrow>
     patch_stateful E model s =
       bind_result
         (fuse_cache_reorder E (key_value_input_names model)
            (if model_type model = ''chatglm'' then 1 else 0)
            (s\<lparr>not_kv_inputs :=
                 filter (\<lambda>input. \<forall>name \<in> set (get_names (ov_model s) input).
                                    name \<notin> set (key_value_input_names model))
                        (inputs (ov_model s))\<rparr>))
         (\<lambda>_. make_stateful E (key_value_input_names model) (key_value_output_names model)
                 (if model_type model = ''chatglm'' then 1 else 0)
                 (if model_type model = ''bloom'' then num_attention_heads model else 1)
                 None)"
  by (simp add: patch_stateful_def raise_if_openvino_is_too_old_def Let_def list_ex_iff)

theorem patch_stateful_arguments_witness:
  "\<not> is_openvino_version reference_engine ''<='' ''2023.2''
   \<and> patch_stateful reference_engine example_metadata example_state =
       bind_result
         (fuse_cache_reorder reference_engine [''past_key''] 0
            (example_state\<lparr>not_kv_inputs := [0]\<rparr>))
         (\<lambda>_. make_stateful reference_engine [''past_key''] [''present_key''] 0 1 None)"
proof -
  have h: "\<not> is_openvino_version reference_engine ''<='' ''2023.2''"
    by (simp add: reference_engine_def)
  have f: "filter (\<lambda>input. \<forall>name \<in> set (get_names (ov_model example_state) input).
                     name \<notin> set (key_value_input_names example_metadata))
                  (inputs (ov_model example_state)) = [0]"
    by (simp add: example_state_def example_model_def example_metadata_def inputs_def
          get_names_def example_parameter_def)
  show ?thesis
    using h patch_stateful_arguments [OF h, of example_metadata example_state]
    by (simp add: f) (simp add: example_metadata_def)
qed

subsection \<open>The name mapping\<close>

lemma kv_loop_None:
  "kv_loop batch_dim h None ps acc s =
     Done (fold (\<lambda>pair. AList.update (fst pair) (snd pair)) ps acc) s"
  by (induction ps arbitrary: acc) (simp_all add: Let_def)

lemma zip_take_min:
  "zip (take (min (length xs) (length ys)) xs) (take (min (length xs) (length ys)) ys) = zip xs ys"
  by (metis take_zip zip_eq_conv length_zip min.idem take_all order_refl)

lemma fold_update_distinct:
  "distinct (map fst acc) \<Longrightarrow>
     distinct (map fst (fold (\<lambda>pair. AList.update (fst pair) (snd pair)) ps acc))"
  by (induction ps arbitrary: acc) (simp_all add: distinct_update)

lemma map_of_fold_update:
  "map_of (fold (\<lambda>pair. AList.update (fst pair) (snd pair)) ps acc)
     = map_of acc ++ map_of (rev ps)"
  by (induction ps arbitrary: acc) (simp_all add: update_conv' map_add_upd_left)

lemma map_of_rev_last:
  "map_of (rev ps) k = Some v \<longleftrightarrow>
     (\<exists>i<length ps. ps ! i = (k, v) \<and> (\<forall>j<length ps. i < j \<longrightarrow> fst (ps ! j) \<noteq> k))"
proof (induction ps rule: rev_induct)
  case Nil
  show ?case by simp
next
  case (snoc x xs)
  let ?n = "length xs"
  show ?case
  proof (cases "fst x = k")
    case True
    have "(\<exists>i<length (xs @ [x]). (xs @ [x]) ! i = (k, v)
              \<and> (\<forall>j<length (xs @ [x]). i < j \<longrightarrow> fst ((xs @ [x]) ! j) \<noteq> k))
          \<longleftrightarrow> snd x = v"
    proof
      assume "\<exists>i<length (xs @ [x]). (xs @ [x]) ! i = (k, v)
              \<and> (\<forall>j<length (xs @ [x]). i < j \<longrightarrow> fst ((xs @ [x]) ! j) \<noteq> k)"
      then obtain i where i: "i < Suc ?n" "(xs @ [x]) ! i = (k, v)"
        and l: "\<forall>j<Suc ?n. i < j \<longrightarrow> fst ((xs @ [x]) ! j) \<noteq> k"
        by auto
      have "\<not> i < ?n"
      proof
        assume "i < ?n"
        with l [rule_format, of ?n] have "fst ((xs @ [x]) ! ?n) \<noteq> k" by simp
        then show False using True by simp
      qed
      then have "i = ?n" using i(1) by simp
      then show "snd x = v" using i(2) by simp
    next
      assume "snd x = v"
      then have "(xs @ [x]) ! ?n = (k, v)" using True by (cases x) simp
      then show "\<exists>i<length (xs @ [x]). (xs @ [x]) ! i = (k, v)
              \<and> (\<forall>j<length (xs @ [x]). i < j \<longrightarrow> fst ((xs @ [x]) ! j) \<noteq> k)"
        by (intro exI [of _ ?n]) simp
    qed
    moreover have "map_of (rev (xs @ [x])) k = Some (snd x)"
      using True by (cases x) simp
    ultimately show ?thesis by auto
  next
    case False
    have "(\<exists>i<length (xs @ [x]). (xs @ [x]) ! i = (k, v)
              \<and> (\<forall>j<length (xs @ [x]). i < j \<longrightarrow> fst ((xs @ [x]) ! j) \<noteq> k))
          \<longleftrightarrow> (\<exists>i<?n. xs ! i = (k, v) \<and> (\<forall>j<?n. i < j \<longrightarrow> fst (xs ! j) \<noteq> k))"
    proof
      assume "\<exists>i<length (xs @ [x]). (xs @ [x]) ! i = (k, v)
              \<and> (\<forall>j<length (xs @ [x]). i < j \<longrightarrow> fst ((xs @ [x]) ! j) \<noteq> k)"
      then obtain i where i: "i < Suc ?n" "(xs @ [x]) ! i = (k, v)"
        and l: "\<forall>j<Suc ?n. i < j \<longrightarrow> fst ((xs @ [x]) ! j) \<noteq> k"
        by auto
      have "i \<noteq> ?n" using i(2) False by auto
      then have i': "i < ?n" using i(1) by simp
      then have "xs ! i = (k, v)" using i(2) by (simp add: nth_append)
      moreover have "\<forall>j<?n. i < j \<longrightarrow> fst (xs ! j) \<noteq> k"
      proof (intro allI impI)
        fix j assume j: "j < ?n" "i < j"
        then have "fst ((xs @ [x]) ! j) \<noteq> k" using l by simp
        then show "fst (xs ! j) \<noteq> k" using j(1) by (simp add: nth_append)
      qed
      ultimately show "\<exists>i<?n. xs ! i = (k, v) \<and> (\<forall>j<?n. i < j \<longrightarrow> fst (xs ! j) \<noteq> k)"
        using i' by blast
    next
      assume "\<exists>i<?n. xs ! i = (k, v) \<and> (\<forall>j<?n. i < j \<longrightarrow> fst (xs ! j) \<noteq> k)"
      then obtain i where i: "i < ?n" "xs ! i = (k, v)"
        and l: "\<forall>j<?n. i < j \<longrightarrow> fst (xs ! j) \<noteq> k"
        by auto
      have "(xs @ [x]) ! i = (k, v)" using i by (simp add: nth_append)
      moreover have "\<forall>j<length (xs @ [x]). i < j \<longrightarrow> fst ((xs @ [x]) ! j) \<noteq> k"
      proof (intro allI impI)
        fix j assume j: "j < length (xs @ [x])" "i < j"
        show "fst ((xs @ [x]) ! j) \<noteq> k"
        proof (cases "j < ?n")
          case True
          then show ?thesis using l j(2) by (simp add: nth_append)
        next
          case False
          then have "j = ?n" using j(1) by simp
          then show ?thesis using \<open>fst x \<noteq> k\<close> by simp
        qed
      qed
      ultimately show "\<exists>i<length (xs @ [x]). (xs @ [x]) ! i = (k, v)
              \<and> (\<forall>j<length (xs @ [x]). i < j \<longrightarrow> fst ((xs @ [x]) ! j) \<noteq> k)"
        using i(1) by (intro exI [of _ i]) simp
    qed
    moreover have "map_of (rev (xs @ [x])) k = map_of (rev xs) k"
      using False by (cases x) simp
    ultimately show ?thesis using snoc.IH by simp
  qed
qed

lemma map_of_zip_last:
  "map_of (rev (zip xs ys)) k = Some v \<longleftrightarrow>
     (\<exists>i<min (length xs) (length ys). xs ! i = k \<and> ys ! i = v
         \<and> (\<forall>j<min (length xs) (length ys). i < j \<longrightarrow> xs ! j \<noteq> k))"
  unfolding map_of_rev_last by (auto simp: min.commute)

subsection \<open>Graphs that keep their nodes\<close>

lemma keeps_refl: "keeps m m"
  by (simp add: keeps_def)

lemma keeps_trans: "keeps a b \<Longrightarrow> keeps b c \<Longrightarrow> keeps a c"
  by (auto simp: keeps_def)

lemma keeps_valid: "keeps m m' \<Longrightarrow> valid_parameters m \<Longrightarrow> valid_parameters m'"
  by (auto simp: keeps_def valid_parameters_def)

lemma keeps_model_input:
  assumes "keeps m m'" "valid_parameters m"
  shows "model_input m' name = model_input m name"
proof -
  have "find (\<lambda>p. name \<in> set (get_names m' p)) (parameters m)
          = find (\<lambda>p. name \<in> set (get_names m p)) (parameters m)"
    using assms by (intro find_cong) (auto simp: keeps_def valid_parameters_def get_names_def)
  then show ?thesis
    using assms by (simp add: model_input_def inputs_def keeps_def)
qed

lemma find_Some_set: "find P xs = Some x \<Longrightarrow> x \<in> set xs \<and> P x"
  by (induction xs) (auto split: if_splits)

lemma model_input_valid:
  "model_input m name = Inr p \<Longrightarrow> valid_parameters m \<Longrightarrow> p < length (nodes m)"
  by (auto simp: model_input_def inputs_def valid_parameters_def
           split: option.splits dest: find_Some_set)

lemma model_input_has_input:
  "(\<exists>p. model_input m name = Inr p) = model_has_input m name"
  by (auto simp: model_input_def model_has_input_def find_None_iff split: option.splits
           dest: find_Some_set)

lemma set_get_target_inputs:
  "set (get_target_inputs m p) =
     {(c, k). c < length (nodes m) \<and> k < length (arguments (nodes m ! c))
              \<and> arguments (nodes m ! c) ! k = p}"
  by (auto simp: get_target_inputs_def)

lemma fold_replace:
  fixes g :: nat
  defines "step \<equiv> (\<lambda>consumer m. replace_source_output m consumer g)"
  shows "length (nodes (fold step es m)) = length (nodes m)
       \<and> parameters (fold step es m) = parameters m
       \<and> results (fold step es m) = results m
       \<and> sinks (fold step es m) = sinks m
       \<and> (\<forall>i<length (nodes m).
            nodes (fold step es m) ! i =
              (nodes m ! i)\<lparr>arguments := arguments (nodes (fold step es m) ! i)\<rparr>
            \<and> length (arguments (nodes (fold step es m) ! i)) = length (arguments (nodes m ! i))
            \<and> (\<forall>k<length (arguments (nodes m ! i)).
                 arguments (nodes (fold step es m) ! i) ! k =
                   (if (i, k) \<in> set es then g else arguments (nodes m ! i) ! k)))"
proof (induction es arbitrary: m)
  case Nil
  then show ?case by simp
next
  case (Cons e es)
  obtain c k where e: "e = (c, k)" by (cases e)
  let ?m1 = "step e m"
  have len: "length (nodes ?m1) = length (nodes m)"
    by (simp add: step_def replace_source_output_def e)
  have rest: "parameters ?m1 = parameters m" "results ?m1 = results m" "sinks ?m1 = sinks m"
    by (simp_all add: step_def replace_source_output_def e)
  have node: "\<And>i. i < length (nodes m) \<Longrightarrow>
      nodes ?m1 ! i = (nodes m ! i)\<lparr>arguments := arguments (nodes ?m1 ! i)\<rparr>
      \<and> length (arguments (nodes ?m1 ! i)) = length (arguments (nodes m ! i))
      \<and> (\<forall>j<length (arguments (nodes m ! i)).
            arguments (nodes ?m1 ! i) ! j = (if (i, j) = (c, k) then g else arguments (nodes m ! i) ! j))"
  proof -
    fix i assume "i < length (nodes m)"
    then show "nodes ?m1 ! i = (nodes m ! i)\<lparr>arguments := arguments (nodes ?m1 ! i)\<rparr>
      \<and> length (arguments (nodes ?m1 ! i)) = length (arguments (nodes m ! i))
      \<and> (\<forall>j<length (arguments (nodes m ! i)).
            arguments (nodes ?m1 ! i) ! j = (if (i, j) = (c, k) then g else arguments (nodes m ! i) ! j))"
      by (cases "i = c") (simp_all add: step_def replace_source_output_def e nth_list_update)
  qed
  note IH = Cons.IH [of ?m1]
  show ?case
  proof (intro conjI allI impI)
    show "length (nodes (fold step (e # es) m)) = length (nodes m)"
      using IH len by simp
    show "parameters (fold step (e # es) m) = parameters m"
      using IH rest by simp
    show "results (fold step (e # es) m) = results m"
      using IH rest by simp
    show "sinks (fold step (e # es) m) = sinks m"
      using IH rest by simp
  next
    fix i assume i: "i < length (nodes m)"
    then have i1: "i < length (nodes ?m1)" using len by simp
    from IH i1 have a: "nodes (fold step es ?m1) ! i =
              (nodes ?m1 ! i)\<lparr>arguments := arguments (nodes (fold step es ?m1) ! i)\<rparr>"
      by blast
    from node [OF i] have b: "nodes ?m1 ! i = (nodes m ! i)\<lparr>arguments := arguments (nodes ?m1 ! i)\<rparr>"
      by blast
    show "nodes (fold step (e # es) m) ! i =
              (nodes m ! i)\<lparr>arguments := arguments (nodes (fold step (e # es) m) ! i)\<rparr>"
      by (simp, subst a, subst b, simp)
    show "length (arguments (nodes (fold step (e # es) m) ! i)) = length (arguments (nodes m ! i))"
      using IH i1 node [OF i] by simp
  next
    fix i j assume i: "i < length (nodes m)" and j: "j < length (arguments (nodes m ! i))"
    then have i1: "i < length (nodes ?m1)" using len by simp
    have j1: "j < length (arguments (nodes ?m1 ! i))" using node [OF i] j by simp
    from IH i1 j1 have "arguments (nodes (fold step es ?m1) ! i) ! j =
        (if (i, j) \<in> set es then g else arguments (nodes ?m1 ! i) ! j)" by blast
    then show "arguments (nodes (fold step (e # es) m) ! i) ! j =
        (if (i, j) \<in> set (e # es) then g else arguments (nodes m ! i) ! j)"
      using node [OF i] j e by auto
  qed
qed

lemma fuse_step:
  assumes g: "opset13_gather E (fst (opset13_constant m (Scalar gd))) p b
                (snd (opset13_constant m (Scalar gd))) = Inr (m2, g)"
  defines "m' \<equiv> fold (\<lambda>consumer m. replace_source_output m consumer g) (get_target_inputs m p) m2"
  shows "length (nodes m') = length (nodes m) + 2"
    and "keeps m m'"
    and "\<forall>i<length (nodes m).
           length (arguments (nodes m' ! i)) = length (arguments (nodes m ! i)) \<and>
           (\<forall>k<length (arguments (nodes m ! i)).
              arguments (nodes m' ! i) ! k =
                (if arguments (nodes m ! i) ! k = p then length (nodes m) + 1
                 else arguments (nodes m ! i) ! k))"
    and "type_name (nodes m' ! length (nodes m)) = ''Constant''"
    and "attribute (nodes m' ! length (nodes m)) = Value (Scalar gd)"
    and "type_name (nodes m' ! (length (nodes m) + 1)) = ''Gather''"
    and "arguments (nodes m' ! (length (nodes m) + 1)) = [p, b, length (nodes m)]"
proof -
  let ?L = "length (nodes m)"
  let ?es = "get_target_inputs m p"
  from g obtain c n where m2: "nodes m2 = nodes m @ [c, n]"
      and c: "type_name c = ''Constant''" "attribute c = Value (Scalar gd)"
      and n: "type_name n = ''Gather''" "arguments n = [p, b, ?L]"
      and gL: "g = ?L + 1"
      and rest: "parameters m2 = parameters m" "results m2 = results m" "sinks m2 = sinks m"
    by (auto simp: opset13_gather_def opset13_op_def opset13_constant_def add_node_def Let_def
             split: option.splits)
  have len2: "length (nodes m2) = ?L + 2" using m2 by simp
  note F = fold_replace [of g ?es m2, folded m'_def]
  have es: "\<And>i k. (i, k) \<in> set ?es \<longleftrightarrow>
      i < ?L \<and> k < length (arguments (nodes m ! i)) \<and> arguments (nodes m ! i) ! k = p"
    by (simp add: set_get_target_inputs)
  have old: "\<And>i. i < ?L \<Longrightarrow> nodes m2 ! i = nodes m ! i"
    by (simp add: m2 nth_append)
  have nodeL: "nodes m2 ! ?L = c" and nodeL1: "nodes m2 ! (?L + 1) = n"
    by (simp_all add: m2 nth_append)
  show "length (nodes m') = ?L + 2" using F len2 by simp
  have same: "\<And>i. i < ?L + 2 \<Longrightarrow>
       nodes m' ! i = (nodes m2 ! i)\<lparr>arguments := arguments (nodes m' ! i)\<rparr>"
    using F len2 by simp
  show "keeps m m'"
    unfolding keeps_def
  proof (intro conjI allI impI)
    fix i assume i: "i < ?L"
    then have "nodes m' ! i = (nodes m ! i)\<lparr>arguments := arguments (nodes m' ! i)\<rparr>"
      using same [of i] old [of i] by simp
    then show "type_name (nodes m' ! i) = type_name (nodes m ! i)"
      "friendly_name (nodes m' ! i) = friendly_name (nodes m ! i)"
      "attribute (nodes m' ! i) = attribute (nodes m ! i)"
      "names (nodes m' ! i) = names (nodes m ! i)"
      by (metis node.select_convs node.surjective node.update_convs)+
  qed (use F len2 rest in simp_all)
  show "\<forall>i<?L. length (arguments (nodes m' ! i)) = length (arguments (nodes m ! i)) \<and>
           (\<forall>k<length (arguments (nodes m ! i)).
              arguments (nodes m' ! i) ! k =
                (if arguments (nodes m ! i) ! k = p then ?L + 1
                 else arguments (nodes m ! i) ! k))"
  proof (intro allI impI conjI)
    fix i assume i: "i < ?L"
    then have i2: "i < length (nodes m2)" using len2 by simp
    show "length (arguments (nodes m' ! i)) = length (arguments (nodes m ! i))"
      using F i2 old [OF i] by simp
    fix k assume k: "k < length (arguments (nodes m ! i))"
    then have k2: "k < length (arguments (nodes m2 ! i))" using old [OF i] by simp
    from F i2 k2 have "arguments (nodes m' ! i) ! k =
        (if (i, k) \<in> set ?es then g else arguments (nodes m2 ! i) ! k)" by blast
    then show "arguments (nodes m' ! i) ! k =
                (if arguments (nodes m ! i) ! k = p then ?L + 1
                 else arguments (nodes m ! i) ! k)"
      using es [of i k] i k old [OF i] gL by simp
  qed
  have sL: "nodes m' ! ?L = c\<lparr>arguments := arguments (nodes m' ! ?L)\<rparr>"
    using same [of ?L] nodeL by simp
  show "type_name (nodes m' ! ?L) = ''Constant''"
    by (subst sL) (simp add: c)
  show "attribute (nodes m' ! ?L) = Value (Scalar gd)"
    by (subst sL) (simp add: c)
  have sL1: "nodes m' ! (?L + 1) = n\<lparr>arguments := arguments (nodes m' ! (?L + 1))\<rparr>"
    using same [of "?L + 1"] nodeL1 by simp
  show "type_name (nodes m' ! (?L + 1)) = ''Gather''"
    by (subst sL1) (simp add: n)
  have L1: "?L + 1 < length (nodes m2)" using len2 by simp
  have lenargs: "length (arguments (nodes m' ! (?L + 1))) = 3"
    using F L1 nodeL1 n by simp
  have "\<And>k. k < 3 \<Longrightarrow> arguments (nodes m' ! (?L + 1)) ! k = [p, b, ?L] ! k"
  proof -
    fix k :: nat assume k: "k < 3"
    then have "k < length (arguments (nodes m2 ! (?L + 1)))" using nodeL1 n by simp
    with F L1 have "arguments (nodes m' ! (?L + 1)) ! k =
        (if (?L + 1, k) \<in> set ?es then g else arguments (nodes m2 ! (?L + 1)) ! k)" by blast
    then show "arguments (nodes m' ! (?L + 1)) ! k = [p, b, ?L] ! k"
      using es [of "?L + 1" k] nodeL1 n by simp
  qed
  then show "arguments (nodes m' ! (?L + 1)) = [p, b, ?L]"
    using lenargs by (intro nth_equalityI) simp_all
qed

subsection \<open>The loop of the fuser\<close>

lemma fuse_loop_edges:
  assumes "fuse_loop E b gd ns s = Done () s'"
    and "valid_parameters (ov_model s)"
    and "distinct (map (model_input (ov_model s)) ns)"
    and "Inr b \<notin> model_input (ov_model s) ` set ns"
  shows "keeps (ov_model s) (ov_model s') \<and> not_kv_inputs s' = not_kv_inputs s
       \<and> stdout s' = stdout s
       \<and> (\<forall>c<length (nodes (ov_model s)).
            length (arguments (nodes (ov_model s') ! c))
              = length (arguments (nodes (ov_model s) ! c))
            \<and> (\<forall>k<length (arguments (nodes (ov_model s) ! c)).
                 (if Inr (arguments (nodes (ov_model s) ! c) ! k) \<in> model_input (ov_model s) ` set ns
                  then gathered (ov_model s') b gd (arguments (nodes (ov_model s) ! c) ! k)
                         (arguments (nodes (ov_model s') ! c) ! k)
                  else arguments (nodes (ov_model s') ! c) ! k
                         = arguments (nodes (ov_model s) ! c) ! k)))"
  using assms
proof (induction ns arbitrary: s)
  case Nil
  then show ?case by (simp add: keeps_refl)
next
  case (Cons n ns)
  let ?m = "ov_model s"
  let ?L = "length (nodes ?m)"
  from Cons.prems(1) obtain p where p: "model_input ?m n = Inr p"
    by (auto split: sum.splits)
  obtain m1 axis where c: "opset13_constant ?m (Scalar gd) = (m1, axis)"
    by (cases "opset13_constant ?m (Scalar gd)")
  from Cons.prems(1) p c obtain m2 g where g: "opset13_gather E m1 p b axis = Inr (m2, g)"
    by (auto simp: Let_def split: sum.splits)
  define m' where "m' = fold (\<lambda>consumer m. replace_source_output m consumer g)
                          (get_target_inputs ?m p) m2"
  define s1 where "s1 = s\<lparr>ov_model := m'\<rparr>"
  have rest: "fuse_loop E b gd ns s1 = Done () s'"
    using Cons.prems(1) p c g by (simp add: Let_def m'_def s1_def)
  have g': "opset13_gather E (fst (opset13_constant ?m (Scalar gd))) p b
                (snd (opset13_constant ?m (Scalar gd))) = Inr (m2, g)"
    using c g by simp
  note S = fuse_step [OF g', folded m'_def]
  have m1: "ov_model s1 = m'" by (simp add: s1_def)
  have k1: "keeps ?m m'" by (rule S(2))
  have v: "valid_parameters ?m" by (rule Cons.prems(2))
  have v1: "valid_parameters m'" using keeps_valid [OF k1 v] .
  have mi: "model_input m' = model_input ?m"
    using keeps_model_input [OF k1 v] by (rule ext)
  have pL: "p < ?L" using model_input_valid [OF p v] .
  have ports: "\<And>x. Inr x \<in> model_input ?m ` set (n # ns) \<Longrightarrow> x < ?L"
    using model_input_valid v by (metis imageE)
  have d1: "distinct (map (model_input (ov_model s1)) ns)"
    using Cons.prems(3) by (simp add: m1 mi)
  have b1: "Inr b \<notin> model_input (ov_model s1) ` set ns"
    using Cons.prems(4) by (simp add: m1 mi)
  have pn: "Inr p \<notin> model_input ?m ` set ns"
    using Cons.prems(3) p by auto
  have bp: "b \<noteq> p" using Cons.prems(4) p by auto
  note IH = Cons.IH [OF rest, unfolded m1, OF v1 d1 [unfolded m1] b1 [unfolded m1], unfolded mi]
  have k2: "keeps m' (ov_model s')" using IH by blast
  have len': "length (nodes m') = ?L + 2" by (rule S(1))
  have lens: "length (nodes m') \<le> length (nodes (ov_model s'))"
    using k2 by (simp add: keeps_def)
  have fresh: "\<And>x. ?L \<le> x \<Longrightarrow> Inr x \<notin> model_input ?m ` set ns"
    using ports by fastforce
  \<comment> \<open>the new gather keeps its three arguments to the end\<close>
  have gargs: "arguments (nodes (ov_model s') ! (?L + 1)) = [p, b, ?L]"
  proof (intro nth_equalityI)
    show "length (arguments (nodes (ov_model s') ! (?L + 1))) = length [p, b, ?L]"
      using IH len' S(7) by simp
  next
    fix k assume "k < length (arguments (nodes (ov_model s') ! (?L + 1)))"
    then have k: "k < 3" using IH len' S(7) by simp
    have "Inr ([p, b, ?L] ! k) \<notin> model_input ?m ` set ns"
      using k pn Cons.prems(4) fresh [of ?L]
      by (cases k; cases "k - 1"; cases "k - 2") auto
    moreover have "k < length (arguments (nodes m' ! (?L + 1)))" using k S(7) by simp
    moreover have "?L + 1 < length (nodes m')" using len' by simp
    ultimately have "arguments (nodes (ov_model s') ! (?L + 1)) ! k
                      = arguments (nodes m' ! (?L + 1)) ! k"
      using IH S(7) by (metis (no_types, lifting))
    then show "arguments (nodes (ov_model s') ! (?L + 1)) ! k = [p, b, ?L] ! k"
      using S(7) by simp
  qed
  have gath: "gathered (ov_model s') b gd p (?L + 1)"
    unfolding gathered_def
  proof (intro conjI exI [of _ ?L])
    show "?L + 1 < length (nodes (ov_model s'))" using len' lens by simp
    show "?L < length (nodes (ov_model s'))" using len' lens by simp
    show "type_name (nodes (ov_model s') ! (?L + 1)) = ''Gather''"
      using k2 S(6) len' by (simp add: keeps_def)
    show "arguments (nodes (ov_model s') ! (?L + 1)) = [p, b, ?L]" by (rule gargs)
    show "type_name (nodes (ov_model s') ! ?L) = ''Constant''"
      using k2 S(4) len' by (simp add: keeps_def)
    show "attribute (nodes (ov_model s') ! ?L) = Value (Scalar gd)"
      using k2 S(5) len' by (simp add: keeps_def)
  qed
  show ?case
  proof (intro conjI allI impI)
    show "keeps ?m (ov_model s')" using keeps_trans [OF k1 k2] .
    show "not_kv_inputs s' = not_kv_inputs s" using IH by (simp add: s1_def)
    show "stdout s' = stdout s" using IH by (simp add: s1_def)
  next
    fix c assume c: "c < ?L"
    then have c1: "c < length (nodes m')" using len' by simp
    show "length (arguments (nodes (ov_model s') ! c)) = length (arguments (nodes ?m ! c))"
      using IH c1 S(3) c by simp
  next
    fix c k assume c: "c < ?L" and k: "k < length (arguments (nodes ?m ! c))"
    then have c1: "c < length (nodes m')" using len' by simp
    let ?src = "arguments (nodes ?m ! c) ! k"
    have k1': "k < length (arguments (nodes m' ! c))" using S(3) c k by simp
    have step: "arguments (nodes m' ! c) ! k = (if ?src = p then ?L + 1 else ?src)"
      using S(3) c k by simp
    from IH c1 k1' have I:
      "(if Inr (arguments (nodes m' ! c) ! k) \<in> model_input ?m ` set ns
        then gathered (ov_model s') b gd (arguments (nodes m' ! c) ! k)
               (arguments (nodes (ov_model s') ! c) ! k)
        else arguments (nodes (ov_model s') ! c) ! k = arguments (nodes m' ! c) ! k)"
      by blast
    show "if Inr ?src \<in> model_input ?m ` set (n # ns)
          then gathered (ov_model s') b gd ?src (arguments (nodes (ov_model s') ! c) ! k)
          else arguments (nodes (ov_model s') ! c) ! k = ?src"
    proof (cases "?src = p")
      case True
      then have "arguments (nodes m' ! c) ! k = ?L + 1" using step by simp
      moreover have "Inr (?L + 1) \<notin> model_input ?m ` set ns" using fresh [of "?L + 1"] by simp
      ultimately have "arguments (nodes (ov_model s') ! c) ! k = ?L + 1" using I by simp
      then show ?thesis using True gath p by simp
    next
      case False
      then have e: "arguments (nodes m' ! c) ! k = ?src" using step by simp
      have "Inr ?src \<in> model_input ?m ` set (n # ns) \<longleftrightarrow> Inr ?src \<in> model_input ?m ` set ns"
        using False p by auto
      then show ?thesis using I [unfolded e] by simp
    qed
  qed
qed

lemma fuse_loop_keeps:
  "fuse_loop E b gd ns s = Done () s' \<Longrightarrow>
     keeps (ov_model s) (ov_model s') \<and> not_kv_inputs s' = not_kv_inputs s \<and> stdout s' = stdout s"
proof (induction ns arbitrary: s)
  case Nil
  then show ?case by (simp add: keeps_refl)
next
  case (Cons n ns)
  let ?m = "ov_model s"
  from Cons.prems obtain p where p: "model_input ?m n = Inr p"
    by (auto split: sum.splits)
  obtain m1 axis where c: "opset13_constant ?m (Scalar gd) = (m1, axis)"
    by (cases "opset13_constant ?m (Scalar gd)")
  from Cons.prems p c obtain m2 g where g: "opset13_gather E m1 p b axis = Inr (m2, g)"
    by (auto simp: Let_def split: sum.splits)
  define m' where "m' = fold (\<lambda>consumer m. replace_source_output m consumer g)
                          (get_target_inputs ?m p) m2"
  have rest: "fuse_loop E b gd ns (s\<lparr>ov_model := m'\<rparr>) = Done () s'"
    using Cons.prems p c g by (simp add: Let_def m'_def)
  have g': "opset13_gather E (fst (opset13_constant ?m (Scalar gd))) p b
                (snd (opset13_constant ?m (Scalar gd))) = Inr (m2, g)"
    using c g by simp
  have k1: "keeps ?m m'" using fuse_step(2) [OF g'] by (simp add: m'_def)
  from Cons.IH [OF rest] k1 show ?case
    by (auto intro: keeps_trans)
qed

lemma validate_Done:
  assumes "validate_nodes_and_infer_types E s = Done () s'"
  shows "keeps (ov_model s) (ov_model s')"
    and "length (nodes (ov_model s')) = length (nodes (ov_model s))"
    and "not_kv_inputs s' = not_kv_inputs s" and "stdout s' = stdout s"
    and "\<And>i. i < length (nodes (ov_model s)) \<Longrightarrow>
           arguments (nodes (ov_model s') ! i) = arguments (nodes (ov_model s) ! i)"
    and "\<And>i t shape. i < length (nodes (ov_model s)) \<Longrightarrow>
           attribute (nodes (ov_model s) ! i) = Parameter_attr t shape \<Longrightarrow>
           output_partial_shape (nodes (ov_model s') ! i) = shape
           \<and> output_element_type (nodes (ov_model s') ! i) = t"
proof -
  from assms obtain f where f: "infer_model E (ov_model s) = Some f"
    and s': "s' = s\<lparr>ov_model := (ov_model s)
                     \<lparr>nodes := map (infer_output (ov_model s) f) [0..<length (nodes (ov_model s))]\<rparr>\<rparr>"
    by (auto simp: validate_nodes_and_infer_types_def split: option.splits)
  have node: "\<And>i. i < length (nodes (ov_model s)) \<Longrightarrow>
      nodes (ov_model s') ! i = infer_output (ov_model s) f i"
    by (simp add: s')
  show "length (nodes (ov_model s')) = length (nodes (ov_model s))" by (simp add: s')
  show "not_kv_inputs s' = not_kv_inputs s" "stdout s' = stdout s" by (simp_all add: s')
  show "keeps (ov_model s) (ov_model s')"
    unfolding keeps_def
    by (auto simp: s' infer_output_def Let_def split: attribute.splits)
  show "\<And>i. i < length (nodes (ov_model s)) \<Longrightarrow>
           arguments (nodes (ov_model s') ! i) = arguments (nodes (ov_model s) ! i)"
    by (auto simp: node infer_output_def Let_def split: attribute.splits)
  show "\<And>i t shape. i < length (nodes (ov_model s)) \<Longrightarrow>
           attribute (nodes (ov_model s) ! i) = Parameter_attr t shape \<Longrightarrow>
           output_partial_shape (nodes (ov_model s') ! i) = shape
           \<and> output_element_type (nodes (ov_model s') ! i) = t"
    by (auto simp: node infer_output_def Let_def split: attribute.splits)
qed

lemma fuse_cache_reorder_Done:
  assumes "fuse_cache_reorder E kvs gd s = Done () s'"
  shows "\<exists>ids s2. \<not> model_has_name (ov_model s) ''beam_idx''
         \<and> model_input (ov_model s) ''input_ids'' = Inr ids
         \<and> get_partial_shape (ov_model s) ids \<noteq> []
         \<and> fuse_loop E (length (nodes (ov_model s))) gd kvs
              (s\<lparr>ov_model := with_beam_idx (ov_model s) (get_partial_shape (ov_model s) ids ! 0),
                 not_kv_inputs := not_kv_inputs s @ [length (nodes (ov_model s))]\<rparr>) = Done () s2
         \<and> validate_nodes_and_infer_types E s2 = Done () s'"
proof -
  let ?m = "ov_model s"
  from assms have nb: "\<not> model_has_name ?m ''beam_idx''"
    by (auto simp: fuse_cache_reorder_def split: if_splits)
  from assms nb obtain ids where ids: "model_input ?m ''input_ids'' = Inr ids"
    by (auto simp: fuse_cache_reorder_def split: sum.splits)
  from assms nb ids obtain d where d: "shape_getitem (get_partial_shape ?m ids) 0 = Inr d"
    by (auto simp: fuse_cache_reorder_def split: sum.splits)
  then have ne: "get_partial_shape ?m ids \<noteq> []" and dd: "d = get_partial_shape ?m ids ! 0"
    by (auto simp: shape_getitem_def split: if_splits)
  have m3: "add_parameters (add_names (fst (opset13_parameter ?m ''beam_idx'' i32 [d]))
               (length (nodes ?m)) [''beam_idx''])
               [length (nodes ?m)] = with_beam_idx ?m d"
    by (simp add: opset13_parameter_def add_node_def add_names_def add_parameters_def
          with_beam_idx_def beam_idx_parameter_def)
  have b: "snd (opset13_parameter ?m ''beam_idx'' i32 [d]) = length (nodes ?m)"
    by (simp add: opset13_parameter_def add_node_def)
  have l: "last (inputs (with_beam_idx ?m d)) = length (nodes ?m)"
    by (simp add: inputs_def with_beam_idx_def)
  from assms nb ids d have
    "bind_result (fuse_loop E (length (nodes ?m)) gd kvs
        (s\<lparr>ov_model := with_beam_idx ?m d,
           not_kv_inputs := not_kv_inputs s @ [length (nodes ?m)]\<rparr>))
       (\<lambda>_. validate_nodes_and_infer_types E) = Done () s'"
    by (simp add: fuse_cache_reorder_def Let_def split_beta m3 b l)
  then obtain s2 where
    "fuse_loop E (length (nodes ?m)) gd kvs
        (s\<lparr>ov_model := with_beam_idx ?m d,
           not_kv_inputs := not_kv_inputs s @ [length (nodes ?m)]\<rparr>) = Done () s2"
    "validate_nodes_and_infer_types E s2 = Done () s'"
    by (auto simp: bind_result_def split: result.splits)
  then show ?thesis using nb ids ne dd by blast
qed

subsection \<open>The fuser\<close>

lemma with_beam_idx_length: "length (nodes (with_beam_idx m d)) = Suc (length (nodes m))"
  by (simp add: with_beam_idx_def)

lemma with_beam_idx_old:
  "i < length (nodes m) \<Longrightarrow> nodes (with_beam_idx m d) ! i = nodes m ! i"
  by (simp add: with_beam_idx_def nth_append)

lemma with_beam_idx_new: "nodes (with_beam_idx m d) ! length (nodes m) = beam_idx_parameter d"
  by (simp add: with_beam_idx_def)

lemma with_beam_idx_parameters:
  "parameters (with_beam_idx m d) = parameters m @ [length (nodes m)]"
  by (simp add: with_beam_idx_def)

lemma with_beam_idx_valid: "valid_parameters m \<Longrightarrow> valid_parameters (with_beam_idx m d)"
  by (auto simp: valid_parameters_def with_beam_idx_def)

lemma find_append_first: "\<exists>x\<in>set xs. P x \<Longrightarrow> find P (xs @ ys) = find P xs"
  by (induction xs) auto

lemma with_beam_idx_model_input:
  assumes "valid_parameters m" "model_has_input m name"
  shows "model_input (with_beam_idx m d) name = model_input m name"
proof -
  have ex: "\<exists>p\<in>set (parameters m). name \<in> set (get_names m p)"
    using assms(2) by (auto simp: model_has_input_def inputs_def)
  have "find (\<lambda>p. name \<in> set (get_names (with_beam_idx m d) p)) (parameters m)
          = find (\<lambda>p. name \<in> set (get_names m p)) (parameters m)"
    using assms(1)
    by (intro find_cong) (auto simp: valid_parameters_def get_names_def with_beam_idx_old)
  moreover have "\<exists>p\<in>set (parameters m). name \<in> set (get_names (with_beam_idx m d) p)"
    using ex assms(1) by (auto simp: valid_parameters_def get_names_def with_beam_idx_old)
  ultimately show ?thesis
    by (simp add: model_input_def inputs_def with_beam_idx_parameters find_append_first)
qed

lemma fuse_beam_idx_parameter:
  assumes "fuse_cache_reorder E kvs gd s = Done () s'"
  shows "\<exists>ids. model_input (ov_model s) ''input_ids'' = Inr ids
       \<and> get_partial_shape (ov_model s) ids \<noteq> []
       \<and> length (nodes (ov_model s)) < length (nodes (ov_model s'))
       \<and> parameters (ov_model s') = parameters (ov_model s) @ [length (nodes (ov_model s))]
       \<and> results (ov_model s') = results (ov_model s)
       \<and> names (nodes (ov_model s') ! length (nodes (ov_model s))) = [''beam_idx'']
       \<and> attribute (nodes (ov_model s') ! length (nodes (ov_model s)))
           = Parameter_attr i32 [get_partial_shape (ov_model s) ids ! 0]
       \<and> output_partial_shape (nodes (ov_model s') ! length (nodes (ov_model s)))
           = [get_partial_shape (ov_model s) ids ! 0]
       \<and> output_element_type (nodes (ov_model s') ! length (nodes (ov_model s))) = i32
       \<and> not_kv_inputs s' = not_kv_inputs s @ [length (nodes (ov_model s))]
       \<and> stdout s' = stdout s
       \<and> (\<forall>i<length (nodes (ov_model s)).
             names (nodes (ov_model s') ! i) = names (nodes (ov_model s) ! i))"
proof -
  let ?m = "ov_model s" let ?L = "length (nodes (ov_model s))"
  from fuse_cache_reorder_Done [OF assms] obtain ids s2 where
    ids: "model_input ?m ''input_ids'' = Inr ids" and ne: "get_partial_shape ?m ids \<noteq> []"
    and loop: "fuse_loop E ?L gd kvs
              (s\<lparr>ov_model := with_beam_idx ?m (get_partial_shape ?m ids ! 0),
                 not_kv_inputs := not_kv_inputs s @ [?L]\<rparr>) = Done () s2"
    and val: "validate_nodes_and_infer_types E s2 = Done () s'"
    by blast
  let ?d = "get_partial_shape ?m ids ! 0"
  let ?m3 = "with_beam_idx ?m ?d"
  from fuse_loop_keeps [OF loop] have k: "keeps ?m3 (ov_model s2)"
    and nk: "not_kv_inputs s2 = not_kv_inputs s @ [?L]" and so: "stdout s2 = stdout s"
    by simp_all
  note V = validate_Done [OF val]
  have k': "keeps ?m3 (ov_model s')" using keeps_trans [OF k V(1)] .
  have L3: "?L < length (nodes ?m3)" by (simp add: with_beam_idx_length)
  have L2: "?L < length (nodes (ov_model s2))" using k L3 by (simp add: keeps_def)
  have at2: "attribute (nodes (ov_model s2) ! ?L) = Parameter_attr i32 [?d]"
    using k L3 by (simp add: keeps_def with_beam_idx_new beam_idx_parameter_def)
  have "names (nodes (ov_model s') ! ?L) = [''beam_idx'']"
    using k' L3 by (simp add: keeps_def with_beam_idx_new beam_idx_parameter_def)
  moreover have "attribute (nodes (ov_model s') ! ?L) = Parameter_attr i32 [?d]"
    using k' L3 by (simp add: keeps_def with_beam_idx_new beam_idx_parameter_def)
  moreover have "output_partial_shape (nodes (ov_model s') ! ?L) = [?d]
               \<and> output_element_type (nodes (ov_model s') ! ?L) = i32"
    using V(6) [OF L2 at2] .
  moreover have "parameters (ov_model s') = parameters ?m @ [?L]"
    "results (ov_model s') = results ?m"
    using k' by (simp_all add: keeps_def with_beam_idx_def)
  moreover have "?L < length (nodes (ov_model s'))" using L2 V(2) by simp
  moreover have "\<forall>i<?L. names (nodes (ov_model s') ! i) = names (nodes ?m ! i)"
    using k' by (simp add: keeps_def with_beam_idx_length with_beam_idx_old)
  ultimately show ?thesis using ids ne nk so V(3,4) by simp
qed

text \<open>
  Claim C6. A completed run of \<open>fuse_cache_reorder\<close> leaves the name \<open>beam_idx\<close>
  among the port names of the graph, so a second run on that graph, whatever its arguments
  and engine, fails the assertion and leaves the state as it found it: the failure comes
  before any mutation.
\<close>

theorem fuse_cache_reorder_twice_fails:
  assumes "fuse_cache_reorder E kvs gd s = Done () s'"
  shows "model_has_name (ov_model s') ''beam_idx''
       \<and> fuse_cache_reorder E' kvs' gd' s' = Failed AssertionError s'"
proof -
  from fuse_beam_idx_parameter [OF assms] have
    p: "parameters (ov_model s') = parameters (ov_model s) @ [length (nodes (ov_model s))]"
    and n: "names (nodes (ov_model s') ! length (nodes (ov_model s))) = [''beam_idx'']"
    by blast+
  have "model_has_name (ov_model s') ''beam_idx''"
    by (simp add: model_has_name_def inputs_def p get_names_def n)
  then show ?thesis by (simp add: fuse_cache_reorder_def)
qed

lemma fuse_cache_reorder_effect:
  assumes run: "fuse_cache_reorder E kvs gd s = Done () s'"
    and valid: "valid_parameters (ov_model s)"
    and kv: "\<forall>name\<in>set kvs. model_has_input (ov_model s) name"
    and dist: "distinct (map (model_input (ov_model s)) kvs)"
  shows "(\<exists>ids. model_input (ov_model s) ''input_ids'' = Inr ids
          \<and> get_partial_shape (ov_model s) ids \<noteq> []
          \<and> attribute (nodes (ov_model s') ! length (nodes (ov_model s)))
               = Parameter_attr i32 [get_partial_shape (ov_model s) ids ! 0]
          \<and> get_partial_shape (ov_model s') (length (nodes (ov_model s)))
               = [get_partial_shape (ov_model s) ids ! 0])
       \<and> get_output_element_type (ov_model s') (length (nodes (ov_model s))) = i32
       \<and> inputs (ov_model s') = inputs (ov_model s) @ [length (nodes (ov_model s))]
       \<and> get_names (ov_model s') (length (nodes (ov_model s))) = [''beam_idx'']
       \<and> (\<forall>p\<in>set (inputs (ov_model s)). ''beam_idx'' \<notin> set (get_names (ov_model s') p))
       \<and> not_kv_inputs s' = not_kv_inputs s @ [length (nodes (ov_model s))]
       \<and> (\<forall>name\<in>set kvs. \<forall>p c k.
             model_input (ov_model s) name = Inr p \<and> c < length (nodes (ov_model s))
             \<and> k < length (arguments (nodes (ov_model s) ! c))
             \<and> arguments (nodes (ov_model s) ! c) ! k = p
             \<longrightarrow> gathered (ov_model s') (length (nodes (ov_model s))) gd p
                   (arguments (nodes (ov_model s') ! c) ! k))"
proof -
  let ?m = "ov_model s" let ?L = "length (nodes (ov_model s))"
  from fuse_cache_reorder_Done [OF run] obtain ids s2 where
    nb: "\<not> model_has_name ?m ''beam_idx''"
    and ids: "model_input ?m ''input_ids'' = Inr ids" and ne: "get_partial_shape ?m ids \<noteq> []"
    and loop: "fuse_loop E ?L gd kvs
              (s\<lparr>ov_model := with_beam_idx ?m (get_partial_shape ?m ids ! 0),
                 not_kv_inputs := not_kv_inputs s @ [?L]\<rparr>) = Done () s2"
    and val: "validate_nodes_and_infer_types E s2 = Done () s'"
    by blast
  let ?d = "get_partial_shape ?m ids ! 0"
  let ?m3 = "with_beam_idx ?m ?d"
  let ?s3 = "s\<lparr>ov_model := ?m3, not_kv_inputs := not_kv_inputs s @ [?L]\<rparr>"
  from fuse_beam_idx_parameter [OF run] ids have B:
    "parameters (ov_model s') = parameters ?m @ [?L]"
    "names (nodes (ov_model s') ! ?L) = [''beam_idx'']"
    "attribute (nodes (ov_model s') ! ?L) = Parameter_attr i32 [?d]"
    "output_partial_shape (nodes (ov_model s') ! ?L) = [?d]"
    "output_element_type (nodes (ov_model s') ! ?L) = i32"
    "not_kv_inputs s' = not_kv_inputs s @ [?L]"
    "\<forall>i<?L. names (nodes (ov_model s') ! i) = names (nodes ?m ! i)"
    by auto
  have m3: "ov_model ?s3 = ?m3" by simp
  have v3: "valid_parameters ?m3" using with_beam_idx_valid [OF valid] .
  have mi: "\<And>name. name \<in> set kvs \<Longrightarrow> model_input ?m3 name = model_input ?m name"
    using with_beam_idx_model_input [OF valid] kv by blast
  have maps: "map (model_input ?m3) kvs = map (model_input ?m) kvs"
    using mi by simp
  have d3: "distinct (map (model_input ?m3) kvs)" unfolding maps by (rule dist)
  have img: "model_input ?m3 ` set kvs = model_input ?m ` set kvs"
    using mi by (auto simp: image_iff)
  have b3: "Inr ?L \<notin> model_input ?m3 ` set kvs"
  proof
    assume "Inr ?L \<in> model_input ?m3 ` set kvs"
    then obtain name where "model_input ?m name = Inr ?L" using img by (metis imageE)
    from model_input_valid [OF this valid] show False by simp
  qed
  note Lp = fuse_loop_edges [OF loop, unfolded m3, OF v3 d3 b3]
  note V = validate_Done [OF val]
  have len3: "length (nodes ?m3) = Suc ?L" by (rule with_beam_idx_length)
  have len2: "length (nodes ?m3) \<le> length (nodes (ov_model s2))"
    using Lp by (simp add: keeps_def)
  \<comment> \<open>validation keeps a gather a gather\<close>
  have gv: "\<And>p g. gathered (ov_model s2) ?L gd p g \<Longrightarrow> gathered (ov_model s') ?L gd p g"
  proof -
    fix p g assume "gathered (ov_model s2) ?L gd p g"
    then obtain axis where g: "g < length (nodes (ov_model s2))"
      "type_name (nodes (ov_model s2) ! g) = ''Gather''"
      "axis < length (nodes (ov_model s2))" "arguments (nodes (ov_model s2) ! g) = [p, ?L, axis]"
      "type_name (nodes (ov_model s2) ! axis) = ''Constant''"
      "attribute (nodes (ov_model s2) ! axis) = Value (Scalar gd)"
      by (auto simp: gathered_def)
    show "gathered (ov_model s') ?L gd p g"
      unfolding gathered_def
      using g V(1) V(2) V(5) [OF g(1)] by (auto simp: keeps_def intro!: exI [of _ axis])
  qed
  have edges: "\<forall>name\<in>set kvs. \<forall>p c k.
             model_input ?m name = Inr p \<and> c < ?L
             \<and> k < length (arguments (nodes ?m ! c))
             \<and> arguments (nodes ?m ! c) ! k = p
             \<longrightarrow> gathered (ov_model s') ?L gd p (arguments (nodes (ov_model s') ! c) ! k)"
  proof (intro ballI allI impI)
    fix name p c k
    assume name: "name \<in> set kvs"
      and h: "model_input ?m name = Inr p \<and> c < ?L \<and> k < length (arguments (nodes ?m ! c))
              \<and> arguments (nodes ?m ! c) ! k = p"
    then have c3: "c < length (nodes ?m3)" using len3 by simp
    have n3: "nodes ?m3 ! c = nodes ?m ! c" using h with_beam_idx_old by simp
    have k3: "k < length (arguments (nodes ?m3 ! c))" using h n3 by simp
    have "Inr (arguments (nodes ?m3 ! c) ! k) \<in> model_input ?m3 ` set kvs"
      using h name n3 img by (metis imageI)
    with Lp c3 k3 have "gathered (ov_model s2) ?L gd (arguments (nodes ?m3 ! c) ! k)
                          (arguments (nodes (ov_model s2) ! c) ! k)"
      by (metis (no_types, lifting))
    then have "gathered (ov_model s') ?L gd p (arguments (nodes (ov_model s2) ! c) ! k)"
      using gv n3 h by simp
    moreover have "c < length (nodes (ov_model s2))" using c3 len2 by simp
    ultimately show "gathered (ov_model s') ?L gd p (arguments (nodes (ov_model s') ! c) ! k)"
      using V(5) by simp
  qed
  have others: "\<forall>p\<in>set (inputs ?m). ''beam_idx'' \<notin> set (get_names (ov_model s') p)"
  proof
    fix p assume p: "p \<in> set (inputs ?m)"
    then have "p < ?L" using valid by (simp add: valid_parameters_def inputs_def)
    then have "get_names (ov_model s') p = get_names ?m p" using B(7) by (simp add: get_names_def)
    moreover have "''beam_idx'' \<notin> set (get_names ?m p)"
      using nb p by (auto simp: model_has_name_def)
    ultimately show "''beam_idx'' \<notin> set (get_names (ov_model s') p)" by simp
  qed
  show ?thesis
    using ids ne B edges others
    by (simp add: get_partial_shape_def get_output_element_type_def inputs_def get_names_def)
qed

lemma opset13_op_Inl: "opset13_op E m t args a = Inl e \<Longrightarrow> e = NodeValidationFailure"
  by (auto simp: opset13_op_def Let_def split: option.splits)

lemma validate_Failed:
  "validate_nodes_and_infer_types E s = Failed e s' \<Longrightarrow> e = NodeValidationFailure"
  by (auto simp: validate_nodes_and_infer_types_def split: option.splits)

lemma fuse_loop_Failed:
  assumes "fuse_loop E b gd ns s = Failed e s'" "valid_parameters (ov_model s)"
    and "\<forall>name\<in>set ns. model_has_input (ov_model s) name"
  shows "e = NodeValidationFailure"
  using assms
proof (induction ns arbitrary: s)
  case Nil
  then show ?case by simp
next
  case (Cons n ns)
  let ?m = "ov_model s"
  from Cons.prems(3) obtain p where p: "model_input ?m n = Inr p"
    using model_input_has_input [of ?m n] by auto
  obtain m1 axis where c: "opset13_constant ?m (Scalar gd) = (m1, axis)"
    by (cases "opset13_constant ?m (Scalar gd)")
  show ?case
  proof (cases "opset13_gather E m1 p b axis")
    case (Inl e')
    then have "e' = NodeValidationFailure"
      unfolding opset13_gather_def by (rule opset13_op_Inl)
    then show ?thesis using Cons.prems(1) p c Inl by (simp add: Let_def)
  next
    case (Inr r)
    obtain m2 g where r: "r = (m2, g)" by (cases r)
    define m' where "m' = fold (\<lambda>consumer m. replace_source_output m consumer g)
                            (get_target_inputs ?m p) m2"
    have rest: "fuse_loop E b gd ns (s\<lparr>ov_model := m'\<rparr>) = Failed e s'"
      using Cons.prems(1) p c Inr r by (simp add: Let_def m'_def)
    have g': "opset13_gather E (fst (opset13_constant ?m (Scalar gd))) p b
                (snd (opset13_constant ?m (Scalar gd))) = Inr (m2, g)"
      using c Inr r by simp
    have k: "keeps ?m m'" using fuse_step(2) [OF g'] by (simp add: m'_def)
    have v: "valid_parameters (ov_model (s\<lparr>ov_model := m'\<rparr>))"
      using keeps_valid [OF k Cons.prems(2)] by simp
    have "\<forall>name\<in>set ns. model_has_input (ov_model (s\<lparr>ov_model := m'\<rparr>)) name"
      using Cons.prems(3) keeps_model_input [OF k Cons.prems(2)]
        model_input_has_input [of ?m] model_input_has_input [of m']
      by simp
    from Cons.IH [OF rest v this] show ?thesis .
  qed
qed

lemma fuse_cache_reorder_unfold:
  assumes "\<not> model_has_name (ov_model s) ''beam_idx''"
    and "model_input (ov_model s) ''input_ids'' = Inr ids"
    and "get_partial_shape (ov_model s) ids \<noteq> []"
  shows "fuse_cache_reorder E kvs gd s =
           bind_result
             (fuse_loop E (length (nodes (ov_model s))) gd kvs
                (s\<lparr>ov_model := with_beam_idx (ov_model s) (get_partial_shape (ov_model s) ids ! 0),
                   not_kv_inputs := not_kv_inputs s @ [length (nodes (ov_model s))]\<rparr>))
             (\<lambda>_. validate_nodes_and_infer_types E)"
proof -
  let ?m = "ov_model s"
  let ?d = "get_partial_shape ?m ids ! 0"
  have d: "shape_getitem (get_partial_shape ?m ids) 0 = Inr ?d"
    using assms(3) by (simp add: shape_getitem_def)
  have m3: "add_parameters (add_names (fst (opset13_parameter ?m ''beam_idx'' i32 [?d]))
               (length (nodes ?m)) [''beam_idx''])
               [length (nodes ?m)] = with_beam_idx ?m ?d"
    by (simp add: opset13_parameter_def add_node_def add_names_def add_parameters_def
          with_beam_idx_def beam_idx_parameter_def)
  have b: "snd (opset13_parameter ?m ''beam_idx'' i32 [?d]) = length (nodes ?m)"
    by (simp add: opset13_parameter_def add_node_def)
  have l: "last (inputs (with_beam_idx ?m ?d)) = length (nodes ?m)"
    by (simp add: inputs_def with_beam_idx_def)
  show ?thesis
    using assms(1,2) d by (simp add: fuse_cache_reorder_def Let_def split_beta m3 b l)
qed

lemma fuse_cache_reorder_Failed:
  assumes run: "fuse_cache_reorder E kvs gd s = Failed e s'"
    and valid: "valid_parameters (ov_model s)"
    and nb: "\<not> model_has_name (ov_model s) ''beam_idx''"
    and ids: "model_input (ov_model s) ''input_ids'' = Inr ids"
    and ne: "get_partial_shape (ov_model s) ids \<noteq> []"
    and kv: "\<forall>name\<in>set kvs. model_has_input (ov_model s) name"
  shows "e = NodeValidationFailure"
proof -
  let ?m = "ov_model s"
  let ?s3 = "s\<lparr>ov_model := with_beam_idx ?m (get_partial_shape ?m ids ! 0),
                not_kv_inputs := not_kv_inputs s @ [length (nodes ?m)]\<rparr>"
  have v3: "valid_parameters (ov_model ?s3)" using with_beam_idx_valid [OF valid] by simp
  have kv3: "\<forall>name\<in>set kvs. model_has_input (ov_model ?s3) name"
  proof
    fix name assume "name \<in> set kvs"
    then have h: "model_has_input ?m name" using kv by simp
    then obtain p where "model_input ?m name = Inr p"
      using model_input_has_input [of ?m name] by auto
    then have "model_input (ov_model ?s3) name = Inr p"
      using with_beam_idx_model_input [OF valid h] by simp
    then show "model_has_input (ov_model ?s3) name"
      using model_input_has_input [of "ov_model ?s3" name] by blast
  qed
  from run have B: "bind_result (fuse_loop E (length (nodes ?m)) gd kvs ?s3)
                      (\<lambda>_. validate_nodes_and_infer_types E) = Failed e s'"
    by (simp add: fuse_cache_reorder_unfold [OF nb ids ne])
  show ?thesis
  proof (cases "fuse_loop E (length (nodes ?m)) gd kvs ?s3")
    case (Done u s2)
    then show ?thesis using B validate_Failed by simp
  next
    case (Failed e2 s2)
    then have "e2 = NodeValidationFailure" using fuse_loop_Failed [OF _ v3 kv3] by blast
    then show ?thesis using B Failed by simp
  qed
qed

text \<open>
  Claim C1. Take a graph whose parameter list refers to nodes of the store, that has an
  input named \<open>input_ids\<close> of rank at least 1 and no port named \<open>beam_idx\<close>, and
  key-value input names that are inputs of the graph and resolve to pairwise distinct
  ports. Then \<open>fuse_cache_reorder\<close> either fails in the engine's node validation, or
  completes, and then the graph has one new input, appended last, named \<open>beam_idx\<close>,
  of type i32 and of shape the one dimension found at axis 0 of \<open>input_ids\<close>; no other
  input carries that name; the port is appended to \<open>not_kv_inputs\<close>; and every consumer
  edge that read a key-value port now reads a Gather node whose arguments are that port,
  the \<open>beam_idx\<close> port and a constant holding \<open>gather_dim\<close>.
\<close>

theorem fuse_cache_reorder_inserts_gathers:
  assumes valid: "valid_parameters (ov_model s)"
    and nb: "\<not> model_has_name (ov_model s) ''beam_idx''"
    and ids: "model_input (ov_model s) ''input_ids'' = Inr ids"
    and ne: "get_partial_shape (ov_model s) ids \<noteq> []"
    and kv: "\<forall>name\<in>set kvs. model_has_input (ov_model s) name"
    and dist: "distinct (map (model_input (ov_model s)) kvs)"
  shows "case fuse_cache_reorder E kvs gd s of
           Failed e s' \<Rightarrow> e = NodeValidationFailure
         | Done u s' \<Rightarrow>
             inputs (ov_model s') = inputs (ov_model s) @ [length (nodes (ov_model s))]
             \<and> get_names (ov_model s') (length (nodes (ov_model s))) = [''beam_idx'']
             \<and> (\<forall>p\<in>set (inputs (ov_model s)). ''beam_idx'' \<notin> set (get_names (ov_model s') p))
             \<and> get_output_element_type (ov_model s') (length (nodes (ov_model s))) = i32
             \<and> get_partial_shape (ov_model s') (length (nodes (ov_model s)))
                 = [get_partial_shape (ov_model s) ids ! 0]
             \<and> attribute (nodes (ov_model s') ! length (nodes (ov_model s)))
                 = Parameter_attr i32 [get_partial_shape (ov_model s) ids ! 0]
             \<and> not_kv_inputs s' = not_kv_inputs s @ [length (nodes (ov_model s))]
             \<and> (\<forall>name\<in>set kvs. \<forall>p c k.
                   model_input (ov_model s) name = Inr p \<and> c < length (nodes (ov_model s))
                   \<and> k < length (arguments (nodes (ov_model s) ! c))
                   \<and> arguments (nodes (ov_model s) ! c) ! k = p
                   \<longrightarrow> gathered (ov_model s') (length (nodes (ov_model s))) gd p
                         (arguments (nodes (ov_model s') ! c) ! k))"
proof (cases "fuse_cache_reorder E kvs gd s")
  case (Failed e s')
  from fuse_cache_reorder_Failed [OF Failed valid nb ids ne kv] Failed show ?thesis by simp
next
  case (Done u s')
  then have run: "fuse_cache_reorder E kvs gd s = Done () s'" by simp
  note T = fuse_cache_reorder_effect [OF run valid kv dist]
  from T ids have "attribute (nodes (ov_model s') ! length (nodes (ov_model s)))
               = Parameter_attr i32 [get_partial_shape (ov_model s) ids ! 0]
          \<and> get_partial_shape (ov_model s') (length (nodes (ov_model s)))
               = [get_partial_shape (ov_model s) ids ! 0]"
    by auto
  then show ?thesis using T Done by simp
qed

lemma is_done_state_of: "is_done r \<Longrightarrow> r = Done () (state_of r)"
  by (cases r) simp_all

lemma fused_example_run:
  "fuse_cache_reorder reference_engine [''past_key''] 0 example_state = Done () fused_example"
proof -
  have "is_done (fuse_cache_reorder reference_engine [''past_key''] 0 example_state)"
    by code_simp
  then show ?thesis
    unfolding fused_example_def by (rule is_done_state_of)
qed

theorem fuse_cache_reorder_inserts_gathers_witness:
  "valid_parameters (ov_model example_state)
   \<and> \<not> model_has_name (ov_model example_state) ''beam_idx''
   \<and> model_input (ov_model example_state) ''input_ids'' = Inr 0
   \<and> get_partial_shape (ov_model example_state) 0 \<noteq> []
   \<and> model_has_input (ov_model example_state) ''past_key''
   \<and> model_input (ov_model example_state) ''past_key'' = Inr 1
   \<and> arguments (nodes (ov_model example_state) ! 2) ! 1 = 1
   \<and> fuse_cache_reorder reference_engine [''past_key''] 0 example_state = Done () fused_example
   \<and> inputs (ov_model fused_example) = [0, 1, 6]
   \<and> get_names (ov_model fused_example) 6 = [''beam_idx'']
   \<and> ''beam_idx'' \<notin> set (get_names (ov_model fused_example) 1)
   \<and> get_output_element_type (ov_model fused_example) 6 = i32
   \<and> get_partial_shape (ov_model fused_example) 6
       = [get_partial_shape (ov_model example_state) 0 ! 0]
   \<and> gathered (ov_model fused_example) 6 0 1 (arguments (nodes (ov_model fused_example) ! 2) ! 1)"
proof -
  have v: "valid_parameters (ov_model example_state)" by code_simp
  have nb: "\<not> model_has_name (ov_model example_state) ''beam_idx''" by code_simp
  have ids: "model_input (ov_model example_state) ''input_ids'' = Inr 0" by code_simp
  have ne: "get_partial_shape (ov_model example_state) 0 \<noteq> []" by code_simp
  have kv: "\<forall>name\<in>set [''past_key'']. model_has_input (ov_model example_state) name"
    by code_simp
  have di: "distinct (map (model_input (ov_model example_state)) [''past_key''])" by simp
  have p: "model_input (ov_model example_state) ''past_key'' = Inr 1" by code_simp
  have a: "arguments (nodes (ov_model example_state) ! 2) ! 1 = 1" by code_simp
  have l: "length (nodes (ov_model example_state)) = 6" by code_simp
  have i: "inputs (ov_model example_state) = [0, 1]" by code_simp
  have k: "(1::nat) < length (arguments (nodes (ov_model example_state) ! 2))" by code_simp
  note T = fuse_cache_reorder_inserts_gathers
             [where E = reference_engine and gd = 0, OF v nb ids ne kv di,
              unfolded fused_example_run result.case l i]
  have "\<forall>name\<in>set [''past_key'']. \<forall>p c k.
             model_input (ov_model example_state) name = Inr p \<and> c < 6
             \<and> k < length (arguments (nodes (ov_model example_state) ! c))
             \<and> arguments (nodes (ov_model example_state) ! c) ! k = p
             \<longrightarrow> gathered (ov_model fused_example) 6 0 p
                   (arguments (nodes (ov_model fused_example) ! c) ! k)"
    using T by (elim conjE)
  from this [rule_format, of "''past_key''" 1 2 1]
  have g: "gathered (ov_model fused_example) 6 0 1
             (arguments (nodes (ov_model fused_example) ! 2) ! 1)"
    using p a k by simp
  have t1: "inputs (ov_model fused_example) = [0, 1] @ [6]" using T by (elim conjE)
  have t2: "get_names (ov_model fused_example) 6 = [''beam_idx'']" using T by (elim conjE)
  have t3: "get_output_element_type (ov_model fused_example) 6 = i32" using T by (elim conjE)
  have t4: "get_partial_shape (ov_model fused_example) 6
              = [get_partial_shape (ov_model example_state) 0 ! 0]"
    using T by (elim conjE)
  have "\<forall>p\<in>set [0, 1]. ''beam_idx'' \<notin> set (get_names (ov_model fused_example) p)"
    using T by (elim conjE)
  then have t5: "''beam_idx'' \<notin> set (get_names (ov_model fused_example) 1)" by simp
  have kv1: "model_has_input (ov_model example_state) ''past_key''" using kv by simp
  have t1': "inputs (ov_model fused_example) = [0, 1, 6]" using t1 by simp
  show ?thesis
    by (intro conjI fused_example_run v nb ids ne kv1 p a t1' t2 t3 t4 t5 g)
qed

text \<open>
  Claim C1 as stated fails when two key-value input names resolve to the same port: the
  second iteration finds the first gather as the only consumer of the port and redirects
  it, so the consumer (node 2) reads a gather (node 8) whose data source is another gather
  (node 10), not the port (node 1).
\<close>

theorem fuse_cache_reorder_duplicate_names:
  "model_has_input example_model ''input_ids''
   \<and> \<not> model_has_name example_model ''beam_idx''
   \<and> model_input example_model ''past_key'' = Inr 1
   \<and> arguments (nodes example_model ! 2) ! 1 = 1
   \<and> is_done (fuse_cache_reorder reference_engine [''past_key'', ''past_key''] 0 example_state)
   \<and> arguments (nodes (ov_model twice_fused_example) ! 2) ! 1 = 8
   \<and> arguments (nodes (ov_model twice_fused_example) ! 8) = [10, 6, 7]
   \<and> type_name (nodes (ov_model twice_fused_example) ! 10) = ''Gather''
   \<and> \<not> gathered (ov_model twice_fused_example) 6 0 1
          (arguments (nodes (ov_model twice_fused_example) ! 2) ! 1)"
proof -
  have c1: "model_has_input example_model ''input_ids''" by code_simp
  have c2: "\<not> model_has_name example_model ''beam_idx''" by code_simp
  have c3: "model_input example_model ''past_key'' = Inr 1" by code_simp
  have c4: "arguments (nodes example_model ! 2) ! 1 = 1" by code_simp
  have c5: "is_done (fuse_cache_reorder reference_engine [''past_key'', ''past_key''] 0
                       example_state)"
    by code_simp
  have c6: "arguments (nodes (ov_model twice_fused_example) ! 2) ! 1 = 8" by code_simp
  have c7: "arguments (nodes (ov_model twice_fused_example) ! 8) = [10, 6, 7]" by code_simp
  have c8: "type_name (nodes (ov_model twice_fused_example) ! 10) = ''Gather''" by code_simp
  have c9: "\<not> gathered (ov_model twice_fused_example) 6 0 1
               (arguments (nodes (ov_model twice_fused_example) ! 2) ! 1)"
    unfolding c6 using c7 by (simp add: gathered_def)
  show ?thesis
    by (intro conjI c1 c2 c3 c4 c5 c6 c7 c8 c9)
qed

theorem fuse_cache_reorder_twice_fails_witness:
  "fuse_cache_reorder reference_engine [''past_key''] 0 example_state = Done () fused_example
   \<and> model_has_name (ov_model fused_example) ''beam_idx''
   \<and> fuse_cache_reorder reference_engine [''past_key''] 0 fused_example
       = Failed AssertionError fused_example"
proof -
  note T = fuse_cache_reorder_twice_fails
             [OF fused_example_run, of reference_engine "[''past_key'']" 0]
  show ?thesis
    by (intro conjI fused_example_run T [THEN conjunct1] T [THEN conjunct2])
qed

subsection \<open>Pinning the batch size\<close>

lemma same_but_attributes_refl: "same_but_attributes m m"
  by (simp add: same_but_attributes_def)

lemma same_but_attributes_trans:
  "same_but_attributes a b \<Longrightarrow> same_but_attributes b c \<Longrightarrow> same_but_attributes a c"
  by (simp add: same_but_attributes_def)

lemma same_but_attributes_reads:
  assumes "same_but_attributes m m'"
  shows "get_partial_shape m' = get_partial_shape m"
    and "get_names m' = get_names m"
    and "model_input m' = model_input m"
    and "get_any_name m' = get_any_name m"
    and "inputs m' = inputs m"
proof -
  show s: "get_partial_shape m' = get_partial_shape m"
    using assms by (intro ext) (simp add: get_partial_shape_def same_but_attributes_def)
  show n: "get_names m' = get_names m"
    using assms by (intro ext) (simp add: get_names_def same_but_attributes_def)
  show i: "inputs m' = inputs m"
    using assms by (simp add: inputs_def same_but_attributes_def)
  show "model_input m' = model_input m"
    by (intro ext) (simp add: model_input_def n i)
  show "get_any_name m' = get_any_name m"
    by (intro ext) (simp add: get_any_name_def n)
qed

lemma set_partial_shape_Inr:
  assumes "set_partial_shape m p shape = Inr m'"
  shows "same_but_attributes m m'"
    and "\<And>i. i \<noteq> p \<Longrightarrow> nodes m' ! i = nodes m ! i"
    and "p < length (nodes m) \<Longrightarrow>
           \<exists>t old. attribute (nodes m ! p) = Parameter_attr t old
                 \<and> attribute (nodes m' ! p) = Parameter_attr t shape"
proof -
  from assms obtain t old where a: "attribute (nodes m ! p) = Parameter_attr t old"
    and m': "m' = m\<lparr>nodes := (nodes m)[p := (nodes m ! p)\<lparr>attribute := Parameter_attr t shape\<rparr>]\<rparr>"
    by (auto simp: set_partial_shape_def split: attribute.splits)
  show "\<And>i. i \<noteq> p \<Longrightarrow> nodes m' ! i = nodes m ! i" by (simp add: m')
  show "p < length (nodes m) \<Longrightarrow>
           \<exists>t old. attribute (nodes m ! p) = Parameter_attr t old
                 \<and> attribute (nodes m' ! p) = Parameter_attr t shape"
    using a by (simp add: m')
  have "\<And>i. nodes m' ! i = nodes m ! i \<or> nodes m' ! i = (nodes m ! i)\<lparr>attribute := Parameter_attr t shape\<rparr>"
  proof -
    fix i show "nodes m' ! i = nodes m ! i \<or> nodes m' ! i = (nodes m ! i)\<lparr>attribute := Parameter_attr t shape\<rparr>"
      by (cases "i = p"; cases "p < length (nodes m)") (simp_all add: m' list_update_beyond)
  qed
  then have "\<And>i. type_name (nodes m' ! i) = type_name (nodes m ! i) \<and>
          friendly_name (nodes m' ! i) = friendly_name (nodes m ! i) \<and>
          arguments (nodes m' ! i) = arguments (nodes m ! i) \<and>
          names (nodes m' ! i) = names (nodes m ! i) \<and>
          output_partial_shape (nodes m' ! i) = output_partial_shape (nodes m ! i) \<and>
          output_element_type (nodes m' ! i) = output_element_type (nodes m ! i)"
    by (metis node.select_convs(1,2,3,5,6,7) node.surjective node.update_convs(4))
  then show "same_but_attributes m m'"
    by (simp add: same_but_attributes_def m')
qed



lemma set_batch_size_low_rank:
  assumes "set_batch_size b (p # rest) s = Done () s'"
    and "length (get_partial_shape (ov_model s) p) \<le> 2"
  shows "\<exists>m1. get_partial_shape (ov_model s) p \<noteq> []
           \<and> set_partial_shape (ov_model s) p ((get_partial_shape (ov_model s) p)[0 := Dimension b])
               = Inr m1
           \<and> set_batch_size b rest (s\<lparr>ov_model := m1\<rparr>) = Done () s'"
  using assms
  by (auto simp: Let_def shape_setitem_def split: sum.splits if_splits)

lemma set_batch_size_frame:
  "set_batch_size b ps s = Done () s' \<Longrightarrow>
     same_but_attributes (ov_model s) (ov_model s') \<and> not_kv_inputs s' = not_kv_inputs s
     \<and> set (stdout s) \<subseteq> set (stdout s')
     \<and> (\<forall>i. i \<notin> set ps \<or> 2 < length (get_partial_shape (ov_model s) i)
            \<longrightarrow> nodes (ov_model s') ! i = nodes (ov_model s) ! i)"
proof (induction ps arbitrary: s)
  case Nil
  then show ?case by (simp add: same_but_attributes_refl)
next
  case (Cons p ps)
  show ?case
  proof (cases "length (get_partial_shape (ov_model s) p) \<le> 2")
    case True
    from set_batch_size_low_rank [OF Cons.prems True] obtain m1 where
      sp: "set_partial_shape (ov_model s) p ((get_partial_shape (ov_model s) p)[0 := Dimension b])
             = Inr m1"
      and rest: "set_batch_size b ps (s\<lparr>ov_model := m1\<rparr>) = Done () s'"
      by blast
    note S = set_partial_shape_Inr [OF sp]
    note R = same_but_attributes_reads [OF S(1)]
    from Cons.IH [OF rest] have IH: "same_but_attributes m1 (ov_model s')"
      "not_kv_inputs s' = not_kv_inputs s" "set (stdout s) \<subseteq> set (stdout s')"
      "\<forall>i. i \<notin> set ps \<or> 2 < length (get_partial_shape m1 i)
            \<longrightarrow> nodes (ov_model s') ! i = nodes m1 ! i"
      by simp_all
    show ?thesis
    proof (intro conjI allI impI)
      show "same_but_attributes (ov_model s) (ov_model s')"
        using same_but_attributes_trans [OF S(1) IH(1)] .
      show "not_kv_inputs s' = not_kv_inputs s" by (rule IH(2))
      show "set (stdout s) \<subseteq> set (stdout s')" by (rule IH(3))
    next
      fix i assume i: "i \<notin> set (p # ps) \<or> 2 < length (get_partial_shape (ov_model s) i)"
      then have "i \<noteq> p" using True by auto
      moreover have "i \<notin> set ps \<or> 2 < length (get_partial_shape m1 i)"
        using i by (auto simp: R(1))
      ultimately show "nodes (ov_model s') ! i = nodes (ov_model s) ! i"
        using IH(4) S(2) by simp
    qed
  next
    case False
    then have hi: "2 < length (get_partial_shape (ov_model s) p)" by simp
    from Cons.prems hi obtain name where
      rest: "set_batch_size b ps (s\<lparr>stdout := stdout s @ [warning name]\<rparr>) = Done () s'"
      by (auto simp: Let_def split: sum.splits)
    from Cons.IH [OF rest] show ?thesis by auto
  qed
qed

lemma set_batch_size_pins:
  assumes "set_batch_size b ps s = Done () s'" "p \<in> set ps" "p < length (nodes (ov_model s))"
    and "length (get_partial_shape (ov_model s) p) \<le> 2"
  shows "get_partial_shape (ov_model s) p \<noteq> []
       \<and> (\<exists>t old. attribute (nodes (ov_model s) ! p) = Parameter_attr t old
             \<and> attribute (nodes (ov_model s') ! p)
                 = Parameter_attr t ((get_partial_shape (ov_model s) p)[0 := Dimension b]))"
  using assms
proof (induction ps arbitrary: s)
  case Nil
  then show ?case by simp
next
  case (Cons q ps)
  let ?m = "ov_model s"
  show ?case
  proof (cases "length (get_partial_shape ?m q) \<le> 2")
    case True
    from set_batch_size_low_rank [OF Cons.prems(1) True] obtain m1 where
      ne: "get_partial_shape ?m q \<noteq> []"
      and sp: "set_partial_shape ?m q ((get_partial_shape ?m q)[0 := Dimension b]) = Inr m1"
      and rest: "set_batch_size b ps (s\<lparr>ov_model := m1\<rparr>) = Done () s'"
      by blast
    note S = set_partial_shape_Inr [OF sp]
    note R = same_but_attributes_reads [OF S(1)]
    have len1: "length (nodes m1) = length (nodes ?m)"
      using S(1) by (simp add: same_but_attributes_def)
    have m1: "ov_model (s\<lparr>ov_model := m1\<rparr>) = m1" by simp
    show ?thesis
    proof (cases "p \<in> set ps")
      case True
      from Cons.IH [OF rest True, unfolded m1 R(1) len1, OF Cons.prems(3,4)]
      obtain t old where ne': "get_partial_shape ?m p \<noteq> []"
        and a1: "attribute (nodes m1 ! p) = Parameter_attr t old"
        and a': "attribute (nodes (ov_model s') ! p)
                   = Parameter_attr t ((get_partial_shape ?m p)[0 := Dimension b])"
        by blast
      show ?thesis
      proof (cases "p = q")
        case True
        from S(3) Cons.prems(3) True obtain t0 old0 where
          "attribute (nodes ?m ! p) = Parameter_attr t0 old0"
          "attribute (nodes m1 ! p) = Parameter_attr t0 ((get_partial_shape ?m q)[0 := Dimension b])"
          by auto
        then show ?thesis using a1 a' ne' by auto
      next
        case False
        then have "nodes m1 ! p = nodes ?m ! p" using S(2) by simp
        then show ?thesis using a1 a' ne' by auto
      qed
    next
      case False
      then have pq: "p = q" using Cons.prems(2) by simp
      have "nodes (ov_model s') ! p = nodes m1 ! p"
        using set_batch_size_frame [OF rest] False by simp
      moreover from S(3) Cons.prems(3) pq obtain t0 old0 where
        "attribute (nodes ?m ! p) = Parameter_attr t0 old0"
        "attribute (nodes m1 ! p) = Parameter_attr t0 ((get_partial_shape ?m q)[0 := Dimension b])"
        by auto
      ultimately show ?thesis using ne pq by auto
    qed
  next
    case False
    then have hi: "2 < length (get_partial_shape ?m q)" by simp
    then have pq: "p \<noteq> q" using Cons.prems(4) by auto
    from Cons.prems(1) hi obtain name where
      rest: "set_batch_size b ps (s\<lparr>stdout := stdout s @ [warning name]\<rparr>) = Done () s'"
      by (auto simp: Let_def split: sum.splits)
    from Cons.IH [OF rest] Cons.prems pq show ?thesis by simp
  qed
qed

lemma kv_loop_step:
  assumes "kv_loop bd h (Some b) (pair # rest) acc s = Done io s'"
  shows "\<exists>q m1. model_input (ov_model s) (fst pair) = Inr q \<and> 0 \<le> bd
           \<and> bd < int (length (get_partial_shape (ov_model s) q))
           \<and> set_partial_shape (ov_model s) q
                ((get_partial_shape (ov_model s) q)[nat bd := Dimension (b * h)]) = Inr m1
           \<and> kv_loop bd h (Some b) rest (AList.update (fst pair) (snd pair) acc)
                (s\<lparr>ov_model := m1\<rparr>) = Done io s'"
proof (cases "model_input (ov_model s) (fst pair)")
  case (Inl e)
  then show ?thesis using assms by (simp add: Let_def)
next
  case (Inr q)
  let ?shape = "get_partial_shape (ov_model s) q"
  show ?thesis
  proof (cases "shape_setitem ?shape bd (b * h)")
    case (Inl e)
    then show ?thesis using assms Inr by (simp add: Let_def)
  next
    case sh: (Inr shape)
    then have bd: "0 \<le> bd" "bd < int (length ?shape)"
      and shape: "shape = ?shape[nat bd := Dimension (b * h)]"
      by (simp_all add: shape_setitem_def split: if_splits)
    show ?thesis
    proof (cases "set_partial_shape (ov_model s) q shape")
      case (Inl e)
      then show ?thesis using assms Inr sh by (simp add: Let_def)
    next
      case m1: (Inr m1)
      then have "kv_loop bd h (Some b) rest (AList.update (fst pair) (snd pair) acc)
                (s\<lparr>ov_model := m1\<rparr>) = Done io s'"
        using assms Inr sh by (simp add: Let_def)
      then show ?thesis using Inr bd m1 shape by blast
    qed
  qed
qed

lemma kv_loop_frame:
  "kv_loop bd h (Some b) ps acc s = Done io s' \<Longrightarrow>
     same_but_attributes (ov_model s) (ov_model s') \<and> not_kv_inputs s' = not_kv_inputs s
     \<and> stdout s' = stdout s
     \<and> (\<forall>i. Inr i \<notin> model_input (ov_model s) ` fst ` set ps
            \<longrightarrow> nodes (ov_model s') ! i = nodes (ov_model s) ! i)"
proof (induction ps arbitrary: s acc)
  case Nil
  then show ?case by (simp add: same_but_attributes_refl)
next
  case (Cons pair ps)
  from kv_loop_step [OF Cons.prems] obtain q m1 where
    q: "model_input (ov_model s) (fst pair) = Inr q"
    and sp: "set_partial_shape (ov_model s) q
                ((get_partial_shape (ov_model s) q)[nat bd := Dimension (b * h)]) = Inr m1"
    and rest: "kv_loop bd h (Some b) ps (AList.update (fst pair) (snd pair) acc)
                (s\<lparr>ov_model := m1\<rparr>) = Done io s'"
    by blast
  note S = set_partial_shape_Inr [OF sp]
  note R = same_but_attributes_reads [OF S(1)]
  from Cons.IH [OF rest] have IH: "same_but_attributes m1 (ov_model s')"
    "not_kv_inputs s' = not_kv_inputs s" "stdout s' = stdout s"
    "\<forall>i. Inr i \<notin> model_input (ov_model s) ` fst ` set ps
          \<longrightarrow> nodes (ov_model s') ! i = nodes m1 ! i"
    by (simp_all add: R(3))
  show ?case
  proof (intro conjI allI impI)
    show "same_but_attributes (ov_model s) (ov_model s')"
      using same_but_attributes_trans [OF S(1) IH(1)] .
    show "not_kv_inputs s' = not_kv_inputs s" by (rule IH(2))
    show "stdout s' = stdout s" by (rule IH(3))
  next
    fix i assume i: "Inr i \<notin> model_input (ov_model s) ` fst ` set (pair # ps)"
    then have "i \<noteq> q" using q by auto
    moreover have "Inr i \<notin> model_input (ov_model s) ` fst ` set ps" using i by auto
    ultimately show "nodes (ov_model s') ! i = nodes (ov_model s) ! i"
      using IH(4) S(2) by simp
  qed
qed

lemma kv_loop_pins:
  assumes "kv_loop bd h (Some b) ps acc s = Done io s'" "name \<in> fst ` set ps"
    and "valid_parameters (ov_model s)"
  shows "\<exists>p t old. model_input (ov_model s) name = Inr p \<and> 0 \<le> bd
           \<and> bd < int (length (get_partial_shape (ov_model s) p))
           \<and> attribute (nodes (ov_model s) ! p) = Parameter_attr t old
           \<and> attribute (nodes (ov_model s') ! p)
               = Parameter_attr t ((get_partial_shape (ov_model s) p)[nat bd := Dimension (b * h)])"
  using assms
proof (induction ps arbitrary: s acc name)
  case Nil
  then show ?case by simp
next
  case (Cons pair ps)
  let ?m = "ov_model s"
  from kv_loop_step [OF Cons.prems(1)] obtain q m1 where
    q: "model_input ?m (fst pair) = Inr q" and bd: "0 \<le> bd"
    "bd < int (length (get_partial_shape ?m q))"
    and sp: "set_partial_shape ?m q ((get_partial_shape ?m q)[nat bd := Dimension (b * h)]) = Inr m1"
    and rest: "kv_loop bd h (Some b) ps (AList.update (fst pair) (snd pair) acc)
                (s\<lparr>ov_model := m1\<rparr>) = Done io s'"
    by blast
  note S = set_partial_shape_Inr [OF sp]
  note R = same_but_attributes_reads [OF S(1)]
  have qL: "q < length (nodes ?m)" using model_input_valid [OF q Cons.prems(3)] .
  from S(3) [OF qL] obtain t0 old0 where
    a0: "attribute (nodes ?m ! q) = Parameter_attr t0 old0"
    and a1: "attribute (nodes m1 ! q)
               = Parameter_attr t0 ((get_partial_shape ?m q)[nat bd := Dimension (b * h)])"
    by blast
  have v1: "valid_parameters m1"
    using Cons.prems(3) S(1) by (simp add: valid_parameters_def same_but_attributes_def)
  have m1: "ov_model (s\<lparr>ov_model := m1\<rparr>) = m1" by simp
  have v1': "valid_parameters (ov_model (s\<lparr>ov_model := m1\<rparr>))" using v1 by simp
  note IH = Cons.IH [OF rest _ v1', unfolded m1 R]
  show ?case
  proof (cases "name \<in> fst ` set ps")
    case True
    from IH [OF True] obtain p t old where
      p: "model_input ?m name = Inr p" "bd < int (length (get_partial_shape ?m p))"
      and b1: "attribute (nodes m1 ! p) = Parameter_attr t old"
      and b': "attribute (nodes (ov_model s') ! p)
               = Parameter_attr t ((get_partial_shape ?m p)[nat bd := Dimension (b * h)])"
      by blast
    show ?thesis
    proof (cases "p = q")
      case True
      then show ?thesis using p bd a0 a1 b1 b' by auto
    next
      case False
      then have "nodes m1 ! p = nodes ?m ! p" using S(2) by simp
      then show ?thesis using p bd b1 b' by auto
    qed
  next
    case False
    then have n: "name = fst pair" using Cons.prems(2) by auto
    show ?thesis
    proof (cases "Inr q \<in> model_input ?m ` fst ` set ps")
      case True
      then obtain name' where n': "name' \<in> fst ` set ps" "model_input ?m name' = Inr q"
        by (metis imageE)
      from IH [OF n'(1)] n'(2) obtain t old where
        b1: "attribute (nodes m1 ! q) = Parameter_attr t old"
        and b': "attribute (nodes (ov_model s') ! q)
               = Parameter_attr t ((get_partial_shape ?m q)[nat bd := Dimension (b * h)])"
        by auto
      then show ?thesis using n q bd a0 a1 by auto
    next
      case False
      have "nodes (ov_model s') ! q = nodes m1 ! q"
        using kv_loop_frame [OF rest] False by (simp add: R(3))
      then show ?thesis using n q bd a0 a1 by auto
    qed
  qed
qed

lemma pin_batch_Done:
  assumes "pin_batch E kin kout bd h b s = Done io s'"
  shows "\<exists>s1 s2. set_batch_size b (not_kv_inputs s) s = Done () s1
           \<and> kv_loop bd h (Some b) (zip kin kout) [] s1 = Done io s2
           \<and> validate_nodes_and_infer_types E s2 = Done () s'"
  using assms
  by (auto simp: pin_batch_def bind_result_def split: result.splits)

lemma make_stateful_pinned:
  "make_stateful E kin kout bd h (Some b) s =
     bind_result (pin_batch E kin kout bd h b s)
       (\<lambda>io s3. bind_result (apply_make_stateful_transformation E io s3) (\<lambda>_ s4. Done () s4))"
  by (simp add: make_stateful_def pin_batch_def bind_result_def split: result.splits)

lemma Dimension_static:
  "0 \<le> v \<Longrightarrow> v < 2 ^ 63 - 1 \<Longrightarrow> Dimension v = static v"
  by (simp add: Dimension_def static_def Let_def)

lemma pin_batch_shapes:
  assumes run: "pin_batch E kin kout bd h b s = Done io s'"
    and valid: "valid_parameters (ov_model s)"
  shows "make_stateful E kin kout bd h (Some b) s =
           bind_result (pin_batch E kin kout bd h b s)
             (\<lambda>io s3. bind_result (apply_make_stateful_transformation E io s3)
                         (\<lambda>_ s4. Done () s4))
       \<and> (\<forall>p\<in>set (not_kv_inputs s).
             p < length (nodes (ov_model s))
             \<and> Inr p \<notin> model_input (ov_model s) ` fst ` set (zip kin kout) \<longrightarrow>
             (if length (get_partial_shape (ov_model s) p) \<le> 2
              then get_partial_shape (ov_model s') p
                     = (get_partial_shape (ov_model s) p)[0 := Dimension b]
                   \<and> get_partial_shape (ov_model s') p ! 0 = Dimension b
              else attribute (nodes (ov_model s') ! p) = attribute (nodes (ov_model s) ! p)
                   \<and> (\<forall>t. attribute (nodes (ov_model s) ! p)
                              = Parameter_attr t (get_partial_shape (ov_model s) p)
                         \<longrightarrow> get_partial_shape (ov_model s') p
                               = get_partial_shape (ov_model s) p)))
       \<and> (\<forall>name\<in>fst ` set (zip kin kout).
             \<exists>p. model_input (ov_model s) name = Inr p \<and> 0 \<le> bd
                \<and> bd < int (length (get_partial_shape (ov_model s) p))
                \<and> get_partial_shape (ov_model s') p
                     = (get_partial_shape (ov_model s) p)[nat bd := Dimension (b * h)]
                \<and> get_partial_shape (ov_model s') p ! nat bd = Dimension (b * h))"
proof -
  let ?m = "ov_model s"
  from pin_batch_Done [OF run] obtain s1 s2 where
    sb: "set_batch_size b (not_kv_inputs s) s = Done () s1"
    and kl: "kv_loop bd h (Some b) (zip kin kout) [] s1 = Done io s2"
    and va: "validate_nodes_and_infer_types E s2 = Done () s'"
    by blast
  note F1 = set_batch_size_frame [OF sb]
  have sa1: "same_but_attributes ?m (ov_model s1)" using F1 by blast
  note R1 = same_but_attributes_reads [OF sa1]
  note F2 = kv_loop_frame [OF kl, unfolded R1]
  have sa2: "same_but_attributes (ov_model s1) (ov_model s2)" using F2 by blast
  have len1: "length (nodes (ov_model s1)) = length (nodes ?m)"
    using sa1 by (simp add: same_but_attributes_def)
  have len2: "length (nodes (ov_model s2)) = length (nodes ?m)"
    using sa2 len1 by (simp add: same_but_attributes_def)
  have v1: "valid_parameters (ov_model s1)"
    using valid sa1 by (simp add: valid_parameters_def same_but_attributes_def)
  note V = validate_Done [OF va]
  have after: "\<And>p t shape. p < length (nodes ?m) \<Longrightarrow>
       attribute (nodes (ov_model s2) ! p) = Parameter_attr t shape \<Longrightarrow>
       get_partial_shape (ov_model s') p = shape"
    using V(6) len2 by (simp add: get_partial_shape_def)
  have attr': "\<And>p. p < length (nodes ?m) \<Longrightarrow>
       attribute (nodes (ov_model s') ! p) = attribute (nodes (ov_model s2) ! p)"
    using V(1) len2 by (simp add: keeps_def)
  have not_kv: "\<forall>p\<in>set (not_kv_inputs s).
             p < length (nodes ?m) \<and> Inr p \<notin> model_input ?m ` fst ` set (zip kin kout) \<longrightarrow>
             (if length (get_partial_shape ?m p) \<le> 2
              then get_partial_shape (ov_model s') p = (get_partial_shape ?m p)[0 := Dimension b]
                   \<and> get_partial_shape (ov_model s') p ! 0 = Dimension b
              else attribute (nodes (ov_model s') ! p) = attribute (nodes ?m ! p)
                   \<and> (\<forall>t. attribute (nodes ?m ! p) = Parameter_attr t (get_partial_shape ?m p)
                         \<longrightarrow> get_partial_shape (ov_model s') p = get_partial_shape ?m p))"
  proof (intro ballI impI)
    fix p assume p: "p \<in> set (not_kv_inputs s)"
      and h: "p < length (nodes ?m) \<and> Inr p \<notin> model_input ?m ` fst ` set (zip kin kout)"
    then have same2: "nodes (ov_model s2) ! p = nodes (ov_model s1) ! p" using F2 by blast
    show "if length (get_partial_shape ?m p) \<le> 2
              then get_partial_shape (ov_model s') p = (get_partial_shape ?m p)[0 := Dimension b]
                   \<and> get_partial_shape (ov_model s') p ! 0 = Dimension b
              else attribute (nodes (ov_model s') ! p) = attribute (nodes ?m ! p)
                   \<and> (\<forall>t. attribute (nodes ?m ! p) = Parameter_attr t (get_partial_shape ?m p)
                         \<longrightarrow> get_partial_shape (ov_model s') p = get_partial_shape ?m p)"
    proof (cases "length (get_partial_shape ?m p) \<le> 2")
      case True
      from set_batch_size_pins [OF sb p _ True] h obtain t where
        ne: "get_partial_shape ?m p \<noteq> []"
        and a1: "attribute (nodes (ov_model s1) ! p)
                   = Parameter_attr t ((get_partial_shape ?m p)[0 := Dimension b])"
        by blast
      have "get_partial_shape (ov_model s') p = (get_partial_shape ?m p)[0 := Dimension b]"
        using after [of p] h a1 same2 by simp
      then show ?thesis using True ne by simp
    next
      case False
      then have "nodes (ov_model s1) ! p = nodes ?m ! p" using F1 by simp
      then have a2: "attribute (nodes (ov_model s2) ! p) = attribute (nodes ?m ! p)"
        using same2 by simp
      then have "attribute (nodes (ov_model s') ! p) = attribute (nodes ?m ! p)"
        using attr' h by simp
      moreover have "\<forall>t. attribute (nodes ?m ! p) = Parameter_attr t (get_partial_shape ?m p)
                         \<longrightarrow> get_partial_shape (ov_model s') p = get_partial_shape ?m p"
        using after [of p] h a2 by simp
      ultimately show ?thesis using False by simp
    qed
  qed
  have kv: "\<forall>name\<in>fst ` set (zip kin kout).
             \<exists>p. model_input ?m name = Inr p \<and> 0 \<le> bd
                \<and> bd < int (length (get_partial_shape ?m p))
                \<and> get_partial_shape (ov_model s') p
                     = (get_partial_shape ?m p)[nat bd := Dimension (b * h)]
                \<and> get_partial_shape (ov_model s') p ! nat bd = Dimension (b * h)"
  proof
    fix name assume name: "name \<in> fst ` set (zip kin kout)"
    from kv_loop_pins [OF kl name v1, unfolded R1] obtain p t where
      p: "model_input ?m name = Inr p" and bd: "0 \<le> bd" "bd < int (length (get_partial_shape ?m p))"
      and a2: "attribute (nodes (ov_model s2) ! p)
                 = Parameter_attr t ((get_partial_shape ?m p)[nat bd := Dimension (b * h)])"
      by blast
    have pL: "p < length (nodes ?m)" using model_input_valid [OF p valid] .
    have e: "get_partial_shape (ov_model s') p
               = (get_partial_shape ?m p)[nat bd := Dimension (b * h)]"
      using after [OF pL a2] .
    have "nat bd < length (get_partial_shape ?m p)" using bd by simp
    then have "get_partial_shape (ov_model s') p ! nat bd = Dimension (b * h)"
      using e by simp
    then show "\<exists>p. model_input ?m name = Inr p \<and> 0 \<le> bd
                \<and> bd < int (length (get_partial_shape ?m p))
                \<and> get_partial_shape (ov_model s') p
                     = (get_partial_shape ?m p)[nat bd := Dimension (b * h)]
                \<and> get_partial_shape (ov_model s') p ! nat bd = Dimension (b * h)"
      using p bd e by blast
  qed
  show ?thesis
    by (intro conjI make_stateful_pinned not_kv kv)
qed

text \<open>
  Claim C4. The pinned case of \<open>make_stateful\<close> is \<open>pin_batch\<close> (lines 95 to 115)
  followed by the engine's transformation. Let the pinned value \<open>b\<close> and the product
  \<open>b * h\<close> be extents, that is lie from 0 up to but not including \<open>2^63 - 1\<close>. When
  \<open>pin_batch\<close> completes on a graph whose inputs are nodes of the store: every port of
  \<open>not_kv_inputs\<close> that no key-value name resolves to and whose rank is at most 2 has,
  after the re-validation, its former shape with the static extent \<open>b\<close> at axis 0; such
  a port of rank above 2 keeps its declared type and shape, and its port shape where that
  agreed with the declaration; and every key-value input named in the zipped lists has its
  former shape with the static extent \<open>b * h\<close> at axis \<open>batch_dim\<close>.
\<close>

theorem make_stateful_pins_batch:
  assumes run: "pin_batch E kin kout bd h b s = Done io s'"
    and valid: "valid_parameters (ov_model s)"
    and b: "0 \<le> b" "b < 2 ^ 63 - 1"
    and bh: "0 \<le> b * h" "b * h < 2 ^ 63 - 1"
  shows "make_stateful E kin kout bd h (Some b) s =
           bind_result (pin_batch E kin kout bd h b s)
             (\<lambda>io s3. bind_result (apply_make_stateful_transformation E io s3)
                         (\<lambda>_ s4. Done () s4))
       \<and> (\<forall>p\<in>set (not_kv_inputs s).
             p < length (nodes (ov_model s))
             \<and> Inr p \<notin> model_input (ov_model s) ` fst ` set (zip kin kout) \<longrightarrow>
             (if length (get_partial_shape (ov_model s) p) \<le> 2
              then get_partial_shape (ov_model s') p
                     = (get_partial_shape (ov_model s) p)[0 := static b]
                   \<and> get_partial_shape (ov_model s') p ! 0 = static b
              else attribute (nodes (ov_model s') ! p) = attribute (nodes (ov_model s) ! p)
                   \<and> (\<forall>t. attribute (nodes (ov_model s) ! p)
                              = Parameter_attr t (get_partial_shape (ov_model s) p)
                         \<longrightarrow> get_partial_shape (ov_model s') p
                               = get_partial_shape (ov_model s) p)))
       \<and> (\<forall>name\<in>fst ` set (zip kin kout).
             \<exists>p. model_input (ov_model s) name = Inr p \<and> 0 \<le> bd
                \<and> bd < int (length (get_partial_shape (ov_model s) p))
                \<and> get_partial_shape (ov_model s') p
                     = (get_partial_shape (ov_model s) p)[nat bd := static (b * h)]
                \<and> get_partial_shape (ov_model s') p ! nat bd = static (b * h))"
proof -
  have d: "Dimension b = static b" using b by (rule Dimension_static)
  have dh: "Dimension (b * h) = static (b * h)" using bh by (rule Dimension_static)
  show ?thesis
    using pin_batch_shapes [OF run valid] unfolding d dh .
qed

theorem make_stateful_pins_batch_witness:
  "pin_batch reference_engine [''past_key''] [''present_key''] 0 8 2 bias_state
     = Done [(''past_key'', ''present_key'')] pinned_example
   \<and> valid_parameters (ov_model bias_state)
   \<and> get_partial_shape (ov_model pinned_example) 0 = [static 2, dynamic]
   \<and> attribute (nodes (ov_model pinned_example) ! 6)
       = Parameter_attr f32 [dynamic, dynamic, dynamic]
   \<and> get_partial_shape (ov_model pinned_example) 1
       = [static 16, static 8, dynamic, static 64]"
proof -
  have run: "pin_batch reference_engine [''past_key''] [''present_key''] 0 8 2 bias_state
               = Done [(''past_key'', ''present_key'')] pinned_example"
    by code_simp
  have v: "valid_parameters (ov_model bias_state)" by code_simp
  have b: "(0::int) \<le> 2" "(2::int) < 2 ^ 63 - 1" by simp_all
  have bh: "(0::int) \<le> 2 * 8" "(2::int) * 8 < 2 ^ 63 - 1" by simp_all
  note T = make_stateful_pins_batch [OF run v b bh]
  have nk: "\<forall>p\<in>set (not_kv_inputs bias_state).
             p < length (nodes (ov_model bias_state))
             \<and> Inr p \<notin> model_input (ov_model bias_state)
                         ` fst ` set (zip [''past_key''] [''present_key'']) \<longrightarrow>
             (if length (get_partial_shape (ov_model bias_state) p) \<le> 2
              then get_partial_shape (ov_model pinned_example) p
                     = (get_partial_shape (ov_model bias_state) p)[0 := static 2]
                   \<and> get_partial_shape (ov_model pinned_example) p ! 0 = static 2
              else attribute (nodes (ov_model pinned_example) ! p)
                     = attribute (nodes (ov_model bias_state) ! p)
                   \<and> (\<forall>t. attribute (nodes (ov_model bias_state) ! p)
                              = Parameter_attr t (get_partial_shape (ov_model bias_state) p)
                         \<longrightarrow> get_partial_shape (ov_model pinned_example) p
                               = get_partial_shape (ov_model bias_state) p))"
    using T by (elim conjE)
  have kv: "\<forall>name\<in>fst ` set (zip [''past_key''] [''present_key'']).
             \<exists>p. model_input (ov_model bias_state) name = Inr p \<and> (0::int) \<le> 0
                \<and> 0 < int (length (get_partial_shape (ov_model bias_state) p))
                \<and> get_partial_shape (ov_model pinned_example) p
                     = (get_partial_shape (ov_model bias_state) p)[nat 0 := static (2 * 8)]
                \<and> get_partial_shape (ov_model pinned_example) p ! nat 0 = static (2 * 8)"
    using T by (elim conjE)
  have m0: "0 \<in> set (not_kv_inputs bias_state)" by code_simp
  have h0: "0 < length (nodes (ov_model bias_state))
            \<and> Inr 0 \<notin> model_input (ov_model bias_state)
                         ` fst ` set (zip [''past_key''] [''present_key''])"
    by code_simp
  have r0: "length (get_partial_shape (ov_model bias_state) 0) \<le> 2" by code_simp
  have e0: "(get_partial_shape (ov_model bias_state) 0)[0 := static 2] = [static 2, dynamic]"
    by code_simp
  from nk [THEN bspec, OF m0, THEN mp, OF h0] r0 e0
  have c0: "get_partial_shape (ov_model pinned_example) 0 = [static 2, dynamic]" by simp
  have m6: "6 \<in> set (not_kv_inputs bias_state)" by code_simp
  have h6: "6 < length (nodes (ov_model bias_state))
            \<and> Inr 6 \<notin> model_input (ov_model bias_state)
                         ` fst ` set (zip [''past_key''] [''present_key''])"
    by code_simp
  have r6: "\<not> length (get_partial_shape (ov_model bias_state) 6) \<le> 2" by code_simp
  have e6: "attribute (nodes (ov_model bias_state) ! 6)
              = Parameter_attr f32 [dynamic, dynamic, dynamic]"
    by code_simp
  from nk [THEN bspec, OF m6, THEN mp, OF h6] r6 e6
  have c6: "attribute (nodes (ov_model pinned_example) ! 6)
              = Parameter_attr f32 [dynamic, dynamic, dynamic]" by simp
  have mk: "''past_key'' \<in> fst ` set (zip [''past_key''] [''present_key''])" by simp
  have pk: "model_input (ov_model bias_state) ''past_key'' = Inr 1" by code_simp
  have ek: "(get_partial_shape (ov_model bias_state) 1)[nat 0 := static (2 * 8)]
              = [static 16, static 8, dynamic, static 64]"
    by code_simp
  from kv [THEN bspec, OF mk] pk ek
  have ck: "get_partial_shape (ov_model pinned_example) 1
              = [static 16, static 8, dynamic, static 64]" by auto
  show ?thesis
    by (intro conjI run v c0 c6 ck)
qed

text \<open>
  Claim C4 as stated fails for the pinned value \<open>-1\<close>, the engine's notation for a
  dynamic dimension: the call completes, axis 0 of \<open>input_ids\<close> is left dynamic instead of
  being given the extent \<open>-1\<close>, and the batch axis of the key-value input, for
  \<open>-1 * 8\<close>, is given the extent 0.
\<close>

theorem make_stateful_pins_dynamic:
  "0 \<in> set (not_kv_inputs example_state)
   \<and> length (get_partial_shape (ov_model example_state) 0) \<le> 2
   \<and> model_input (ov_model example_state) ''past_key'' = Inr 1
   \<and> is_done (make_stateful reference_engine [''past_key''] [''present_key''] 0 8 (Some (- 1))
                example_state)
   \<and> pin_batch reference_engine [''past_key''] [''present_key''] 0 8 (- 1) example_state
       = Done [(''past_key'', ''present_key'')] unpinned_example
   \<and> get_partial_shape (ov_model unpinned_example) 0 ! 0 = dynamic
   \<and> get_partial_shape (ov_model unpinned_example) 0 ! 0 \<noteq> static (- 1)
   \<and> get_partial_shape (ov_model unpinned_example) 1 ! 0 = static 0
   \<and> get_partial_shape (ov_model unpinned_example) 1 ! 0 \<noteq> static (- 1 * 8)"
proof -
  have c1: "0 \<in> set (not_kv_inputs example_state)" by code_simp
  have c2: "length (get_partial_shape (ov_model example_state) 0) \<le> 2" by code_simp
  have c3: "model_input (ov_model example_state) ''past_key'' = Inr 1" by code_simp
  have c4: "is_done (make_stateful reference_engine [''past_key''] [''present_key''] 0 8
                       (Some (- 1)) example_state)"
    by code_simp
  have c5: "pin_batch reference_engine [''past_key''] [''present_key''] 0 8 (- 1) example_state
              = Done [(''past_key'', ''present_key'')] unpinned_example"
    by code_simp
  have c6: "get_partial_shape (ov_model unpinned_example) 0 ! 0 = dynamic" by code_simp
  have c7: "get_partial_shape (ov_model unpinned_example) 0 ! 0 \<noteq> static (- 1)"
    unfolding c6 by (simp add: dynamic_def static_def)
  have c8: "get_partial_shape (ov_model unpinned_example) 1 ! 0 = static 0" by code_simp
  have c9: "get_partial_shape (ov_model unpinned_example) 1 ! 0 \<noteq> static (- 1 * 8)"
    unfolding c8 by (simp add: static_def)
  show ?thesis
    by (intro conjI c1 c2 c3 c4 c5 c6 c7 c8 c9)
qed

subsection \<open>Surplus names\<close>

lemma kv_loop_mapping:
  "kv_loop bd h nb ps acc s = Done io s' \<Longrightarrow>
     io = fold (\<lambda>pair. AList.update (fst pair) (snd pair)) ps acc"
proof (induction ps arbitrary: acc s)
  case Nil
  then show ?case by simp
next
  case (Cons pair ps)
  show ?case
  proof (cases nb)
    case None
    then show ?thesis using Cons.prems by (simp add: kv_loop_None)
  next
    case (Some b)
    from kv_loop_step [OF Cons.prems [unfolded Some]] obtain m1 where
      "kv_loop bd h (Some b) ps (AList.update (fst pair) (snd pair) acc)
         (s\<lparr>ov_model := m1\<rparr>) = Done io s'"
      by blast
    from Cons.IH [OF this [folded Some]] show ?thesis by simp
  qed
qed

lemma pin_batch_frame:
  assumes run: "pin_batch E kin kout bd h b s = Done io s'"
    and p: "p < length (nodes (ov_model s))" "p \<notin> set (not_kv_inputs s)"
      "Inr p \<notin> model_input (ov_model s) ` fst ` set (zip kin kout)"
  shows "io = fold (\<lambda>pair. AList.update (fst pair) (snd pair)) (zip kin kout) []"
    and "attribute (nodes (ov_model s') ! p) = attribute (nodes (ov_model s) ! p)"
proof -
  from pin_batch_Done [OF run] obtain s1 s2 where
    sb: "set_batch_size b (not_kv_inputs s) s = Done () s1"
    and kl: "kv_loop bd h (Some b) (zip kin kout) [] s1 = Done io s2"
    and va: "validate_nodes_and_infer_types E s2 = Done () s'"
    by blast
  show "io = fold (\<lambda>pair. AList.update (fst pair) (snd pair)) (zip kin kout) []"
    using kv_loop_mapping [OF kl] .
  note F1 = set_batch_size_frame [OF sb]
  have sa1: "same_but_attributes (ov_model s) (ov_model s1)" using F1 by blast
  note R1 = same_but_attributes_reads [OF sa1]
  note F2 = kv_loop_frame [OF kl, unfolded R1]
  have sa2: "same_but_attributes (ov_model s1) (ov_model s2)" using F2 by blast
  have len2: "length (nodes (ov_model s2)) = length (nodes (ov_model s))"
    using sa1 sa2 by (simp add: same_but_attributes_def)
  have n1: "nodes (ov_model s1) ! p = nodes (ov_model s) ! p" using F1 p(2) by blast
  have n2: "nodes (ov_model s2) ! p = nodes (ov_model s1) ! p" using F2 p(3) by blast
  have "attribute (nodes (ov_model s') ! p) = attribute (nodes (ov_model s2) ! p)"
    using validate_Done(1) [OF va] len2 p(1) by (simp add: keeps_def)
  then show "attribute (nodes (ov_model s') ! p) = attribute (nodes (ov_model s) ! p)"
    using n1 n2 by simp
qed

lemma zip_ports:
  assumes "\<forall>i<min (length kin) (length kout). f (kin ! i) \<noteq> x"
  shows "x \<notin> f ` fst ` set (zip kin kout)"
proof
  assume "x \<in> f ` fst ` set (zip kin kout)"
  then obtain pair where m: "pair \<in> set (zip kin kout)" and e: "x = f (fst pair)" by blast
  from m obtain i where "i < length (zip kin kout)" "zip kin kout ! i = pair"
    by (auto simp: in_set_conv_nth)
  then have "i < min (length kin) (length kout)" "fst pair = kin ! i" by auto
  then show False using assms e by auto
qed

text \<open>
  Claim C9. The mapping that \<open>make_stateful\<close> hands to the engine's transformation, in
  the unpinned and in the pinned case, is the dictionary that holds, for a name, the
  output name at the last position below min(len, len) where the input names have that
  name, and nothing for any other name. Lists of unequal length raise nothing: the call
  does exactly what it does on both lists cut to the shorter length. In the pinned case,
  when lines 95 to 115 complete, a node that is neither in \<open>not_kv_inputs\<close> nor the port
  of one of the first min(len, len) input names keeps its declared type and shape, so no
  shape is written for a surplus name.
\<close>

theorem zip_drops_surplus_names:
  "\<exists>iom.
     distinct (map fst iom)
   \<and> (\<forall>name out. map_of iom name = Some out \<longleftrightarrow>
          (\<exists>i<min (length kin) (length kout). kin ! i = name \<and> kout ! i = out
              \<and> (\<forall>j<min (length kin) (length kout). i < j \<longrightarrow> kin ! j \<noteq> name)))
   \<and> make_stateful E kin kout bd h None s =
       bind_result (apply_make_stateful_transformation E iom s)
         (\<lambda>_. build_state_initializer E bd)
   \<and> (\<forall>b. make_stateful E kin kout bd h (Some b) s =
            bind_result (pin_batch E kin kout bd h b s)
              (\<lambda>io s3. bind_result (apply_make_stateful_transformation E io s3)
                          (\<lambda>_ s4. Done () s4)))
   \<and> (\<forall>b io s'. pin_batch E kin kout bd h b s = Done io s' \<longrightarrow>
          io = iom
          \<and> (\<forall>p<length (nodes (ov_model s)).
                p \<notin> set (not_kv_inputs s)
                \<and> (\<forall>i<min (length kin) (length kout).
                       model_input (ov_model s) (kin ! i) \<noteq> Inr p)
                \<longrightarrow> attribute (nodes (ov_model s') ! p) = attribute (nodes (ov_model s) ! p)))
   \<and> (\<forall>nb. make_stateful E kin kout bd h nb s =
             make_stateful E (take (min (length kin) (length kout)) kin)
                             (take (min (length kin) (length kout)) kout) bd h nb s)"
proof -
  let ?iom = "fold (\<lambda>pair. AList.update (fst pair) (snd pair)) (zip kin kout) []"
  have c1: "distinct (map fst ?iom)" by (rule fold_update_distinct) simp
  have c2: "\<forall>name out. map_of ?iom name = Some out \<longleftrightarrow>
          (\<exists>i<min (length kin) (length kout). kin ! i = name \<and> kout ! i = out
              \<and> (\<forall>j<min (length kin) (length kout). i < j \<longrightarrow> kin ! j \<noteq> name))"
    by (simp add: map_of_fold_update map_of_zip_last)
  have c3: "make_stateful E kin kout bd h None s =
       bind_result (apply_make_stateful_transformation E ?iom s)
         (\<lambda>_. build_state_initializer E bd)"
    by (simp add: make_stateful_def kv_loop_None)
  have c4: "\<forall>b. make_stateful E kin kout bd h (Some b) s =
            bind_result (pin_batch E kin kout bd h b s)
              (\<lambda>io s3. bind_result (apply_make_stateful_transformation E io s3)
                          (\<lambda>_ s4. Done () s4))"
    using make_stateful_pinned by blast
  have c5: "\<forall>b io s'. pin_batch E kin kout bd h b s = Done io s' \<longrightarrow>
          io = ?iom
          \<and> (\<forall>p<length (nodes (ov_model s)).
                p \<notin> set (not_kv_inputs s)
                \<and> (\<forall>i<min (length kin) (length kout).
                       model_input (ov_model s) (kin ! i) \<noteq> Inr p)
                \<longrightarrow> attribute (nodes (ov_model s') ! p) = attribute (nodes (ov_model s) ! p))"
  proof (intro allI impI conjI)
    fix b io s' assume run: "pin_batch E kin kout bd h b s = Done io s'"
    from pin_batch_Done [OF run] obtain s1 s2 where
      "kv_loop bd h (Some b) (zip kin kout) [] s1 = Done io s2" by blast
    from kv_loop_mapping [OF this] show "io = ?iom" .
    fix p
    assume p: "p < length (nodes (ov_model s))"
      and q: "p \<notin> set (not_kv_inputs s)
              \<and> (\<forall>i<min (length kin) (length kout). model_input (ov_model s) (kin ! i) \<noteq> Inr p)"
    have "Inr p \<notin> model_input (ov_model s) ` fst ` set (zip kin kout)"
      by (rule zip_ports) (use q in blast)
    from pin_batch_frame(2) [OF run p _ this] q
    show "attribute (nodes (ov_model s') ! p) = attribute (nodes (ov_model s) ! p)" by blast
  qed
  have c6: "\<forall>nb. make_stateful E kin kout bd h nb s =
             make_stateful E (take (min (length kin) (length kout)) kin)
                             (take (min (length kin) (length kout)) kout) bd h nb s"
    by (simp add: make_stateful_def zip_take_min)
  show ?thesis
    by (rule exI [of _ ?iom]) (intro conjI c1 c2 c3 c4 c5 c6)
qed

theorem zip_drops_surplus_names_witness:
  "model_input (ov_model surplus_state) ''position_bias'' = Inr 6
   \<and> 6 \<notin> set (not_kv_inputs surplus_state)
   \<and> model_input (ov_model surplus_state) ''past_key'' \<noteq> Inr 6
   \<and> pin_batch reference_engine [''past_key'', ''position_bias''] [''present_key''] 0 8 2
       surplus_state = Done [(''past_key'', ''present_key'')] surplus_example
   \<and> attribute (nodes (ov_model surplus_example) ! 6)
       = Parameter_attr f32 [dynamic, dynamic, dynamic]
   \<and> make_stateful reference_engine [''past_key'', ''position_bias''] [''present_key''] 0 8
       None surplus_state
       = bind_result
           (apply_make_stateful_transformation reference_engine
              [(''past_key'', ''present_key'')] surplus_state)
           (\<lambda>_. build_state_initializer reference_engine 0)"
proof -
  have a: "model_input (ov_model surplus_state) ''position_bias'' = Inr 6" by code_simp
  have b: "6 \<notin> set (not_kv_inputs surplus_state)" by code_simp
  have c: "model_input (ov_model surplus_state) ''past_key'' \<noteq> Inr 6" by code_simp
  have run: "pin_batch reference_engine [''past_key'', ''position_bias''] [''present_key'']
               0 8 2 surplus_state = Done [(''past_key'', ''present_key'')] surplus_example"
    by code_simp
  have l: "6 < length (nodes (ov_model surplus_state))" by code_simp
  have n: "min (length [''past_key'', ''position_bias'']) (length [''present_key'']) = 1"
    by simp
  have at: "attribute (nodes (ov_model surplus_state) ! 6)
              = Parameter_attr f32 [dynamic, dynamic, dynamic]"
    by code_simp
  from zip_drops_surplus_names
         [where kin = "[''past_key'', ''position_bias'']" and kout = "[''present_key'']"
            and E = reference_engine and bd = 0 and h = 8 and s = surplus_state]
  obtain iom where
    u: "make_stateful reference_engine [''past_key'', ''position_bias''] [''present_key''] 0 8
          None surplus_state
          = bind_result (apply_make_stateful_transformation reference_engine iom surplus_state)
              (\<lambda>_. build_state_initializer reference_engine 0)"
    and f: "\<forall>b io s'. pin_batch reference_engine [''past_key'', ''position_bias'']
                         [''present_key''] 0 8 b surplus_state = Done io s' \<longrightarrow>
          io = iom
          \<and> (\<forall>p<length (nodes (ov_model surplus_state)).
                p \<notin> set (not_kv_inputs surplus_state)
                \<and> (\<forall>i<min (length [''past_key'', ''position_bias''])
                            (length [''present_key'']).
                       model_input (ov_model surplus_state)
                         ([''past_key'', ''position_bias''] ! i) \<noteq> Inr p)
                \<longrightarrow> attribute (nodes (ov_model s') ! p)
                      = attribute (nodes (ov_model surplus_state) ! p))"
    by (elim exE conjE)
  note F = f [rule_format, OF run]
  have io: "iom = [(''past_key'', ''present_key'')]" using F [THEN conjunct1] by simp
  have "\<forall>i<min (length [''past_key'', ''position_bias'']) (length [''present_key'']).
          model_input (ov_model surplus_state) ([''past_key'', ''position_bias''] ! i) \<noteq> Inr 6"
    unfolding n using c by simp
  with F [THEN conjunct2, rule_format, OF l] b
  have "attribute (nodes (ov_model surplus_example) ! 6)
          = attribute (nodes (ov_model surplus_state) ! 6)"
    by blast
  then have d: "attribute (nodes (ov_model surplus_example) ! 6)
                  = Parameter_attr f32 [dynamic, dynamic, dynamic]"
    unfolding at .
  show ?thesis
    by (intro conjI a b c run d u [unfolded io])
qed

subsection \<open>The warning branch\<close>subsection \<open>The warning branch\<close>












subsection \<open>Appending nodes\<close>

lemma extends_refl: "extends m m"
  by (simp add: extends_def)

lemma extends_trans: "extends a b \<Longrightarrow> extends b c \<Longrightarrow> extends a c"
  by (auto simp: extends_def)

lemma extends_length: "extends m m' \<Longrightarrow> length (nodes m) \<le> length (nodes m')"
  by (auto simp: extends_def)

lemma extends_nth: "extends m m' \<Longrightarrow> i < length (nodes m) \<Longrightarrow> nodes m' ! i = nodes m ! i"
  by (auto simp: extends_def nth_append)

lemma extends_model_input: "extends m m' \<Longrightarrow> valid_parameters m \<Longrightarrow> model_input m' = model_input m"
proof (intro ext)
  fix name assume e: "extends m m'" and v: "valid_parameters m"
  have "find (\<lambda>p. name \<in> set (get_names m' p)) (parameters m)
          = find (\<lambda>p. name \<in> set (get_names m p)) (parameters m)"
    using e v by (intro find_cong) (auto simp: valid_parameters_def get_names_def extends_nth)
  then show "model_input m' name = model_input m name"
    using e by (simp add: model_input_def inputs_def extends_def)
qed

lemma opset13_constant_eq:
  assumes "opset13_constant m v = (m', c)"
  shows "c = length (nodes m)" and "extends m m'"
    and "length (nodes m') = Suc (length (nodes m))"
    and "type_name (nodes m' ! c) = ''Constant''" and "arguments (nodes m' ! c) = []"
    and "attribute (nodes m' ! c) = Value v"
  using assms by (auto simp: opset13_constant_def add_node_def extends_def)

lemma opset13_op_Inr:
  assumes "opset13_op E m t args a = Inr (m', n)"
  shows "n = length (nodes m)" and "extends m m'"
    and "length (nodes m') = Suc (length (nodes m))"
    and "type_name (nodes m' ! n) = t" and "arguments (nodes m' ! n) = args"
    and "attribute (nodes m' ! n) = a"
  using assms
  by (auto simp: opset13_op_def add_node_def extends_def Let_def split: option.splits)

lemma dim_constants_spec:
  "dim_constants m dims = (m', cs) \<Longrightarrow>
     extends m m' \<and> length cs = length dims
     \<and> (\<forall>i<length dims.
          case dims ! i of
            Extent v \<Rightarrow> length (nodes m) \<le> cs ! i \<and> cs ! i < length (nodes m')
                       \<and> type_name (nodes m' ! (cs ! i)) = ''Constant''
                       \<and> attribute (nodes m' ! (cs ! i)) = Value (Vector [v])
          | Node_output p \<Rightarrow> cs ! i = p)"
proof (induction m dims arbitrary: m' cs rule: dim_constants.induct)
  case (1 m)
  then show ?case by (simp add: extends_refl)
next
  case (2 m v dims)
  obtain m1 c where c: "opset13_constant m (Vector [v]) = (m1, c)"
    by (cases "opset13_constant m (Vector [v])")
  obtain m2 cs2 where r: "dim_constants m1 dims = (m2, cs2)"
    by (cases "dim_constants m1 dims")
  from "2.prems" c r have m': "m' = m2" and cs: "cs = c # cs2" by simp_all
  note C = opset13_constant_eq [OF c]
  from "2.IH" [OF c [symmetric] r] have IH: "extends m1 m2" "length cs2 = length dims"
    "\<forall>i<length dims.
          case dims ! i of
            Extent v \<Rightarrow> length (nodes m1) \<le> cs2 ! i \<and> cs2 ! i < length (nodes m2)
                       \<and> type_name (nodes m2 ! (cs2 ! i)) = ''Constant''
                       \<and> attribute (nodes m2 ! (cs2 ! i)) = Value (Vector [v])
          | Node_output p \<Rightarrow> cs2 ! i = p"
    by simp_all
  have cL: "c < length (nodes m1)" using C(1,3) by simp
  have head: "length (nodes m) \<le> c \<and> c < length (nodes m2)
       \<and> type_name (nodes m2 ! c) = ''Constant'' \<and> attribute (nodes m2 ! c) = Value (Vector [v])"
    using C cL extends_length [OF IH(1)] extends_nth [OF IH(1) cL] by simp
  show ?case
    unfolding m' cs
  proof (intro conjI allI impI)
    show "extends m m2" using extends_trans [OF C(2) IH(1)] .
    show "length (c # cs2) = length (Extent v # dims)" using IH(2) by simp
  next
    fix i assume i: "i < length (Extent v # dims)"
    show "case (Extent v # dims) ! i of
            Extent v \<Rightarrow> length (nodes m) \<le> (c # cs2) ! i \<and> (c # cs2) ! i < length (nodes m2)
                       \<and> type_name (nodes m2 ! ((c # cs2) ! i)) = ''Constant''
                       \<and> attribute (nodes m2 ! ((c # cs2) ! i)) = Value (Vector [v])
          | Node_output p \<Rightarrow> (c # cs2) ! i = p"
    proof (cases i)
      case 0
      then show ?thesis using head by simp
    next
      case (Suc k)
      then have k: "k < length dims" using i by simp
      have "length (nodes m) \<le> length (nodes m1)" using C(3) by simp
      then show ?thesis using IH(3) k Suc
        by (auto split: dim_entry.splits)
    qed
  qed
next
  case (3 m p dims)
  obtain m2 cs2 where r: "dim_constants m dims = (m2, cs2)"
    by (cases "dim_constants m dims")
  from "3.prems" r have m': "m' = m2" and cs: "cs = p # cs2" by simp_all
  from "3.IH" [OF r] have IH: "extends m m2" "length cs2 = length dims"
    "\<forall>i<length dims.
          case dims ! i of
            Extent v \<Rightarrow> length (nodes m) \<le> cs2 ! i \<and> cs2 ! i < length (nodes m2)
                       \<and> type_name (nodes m2 ! (cs2 ! i)) = ''Constant''
                       \<and> attribute (nodes m2 ! (cs2 ! i)) = Value (Vector [v])
          | Node_output p \<Rightarrow> cs2 ! i = p"
    by simp_all
  show ?case
    unfolding m' cs
  proof (intro conjI allI impI)
    show "extends m m2" by (rule IH(1))
    show "length (p # cs2) = length (Node_output p # dims)" using IH(2) by simp
  next
    fix i assume i: "i < length (Node_output p # dims)"
    show "case (Node_output p # dims) ! i of
            Extent v \<Rightarrow> length (nodes m) \<le> (p # cs2) ! i \<and> (p # cs2) ! i < length (nodes m2)
                       \<and> type_name (nodes m2 ! ((p # cs2) ! i)) = ''Constant''
                       \<and> attribute (nodes m2 ! ((p # cs2) ! i)) = Value (Vector [v])
          | Node_output p' \<Rightarrow> (p # cs2) ! i = p'"
    proof (cases i)
      case 0
      then show ?thesis by simp
    next
      case (Suc k)
      then have k: "k < length dims" using i by simp
      from IH(3) k have "case dims ! k of
            Extent v \<Rightarrow> length (nodes m) \<le> cs2 ! k \<and> cs2 ! k < length (nodes m2)
                       \<and> type_name (nodes m2 ! (cs2 ! k)) = ''Constant''
                       \<and> attribute (nodes m2 ! (cs2 ! k)) = Value (Vector [v])
          | Node_output p \<Rightarrow> cs2 ! k = p" by blast
      then show ?thesis unfolding Suc by (cases "dims ! k") simp_all
    qed
  qed
qed

subsection \<open>The loop of the state initializer\<close>

lemma list_setitem_Inr:
  assumes "list_setitem xs i v = Inr ys"
  shows "list_index i (length xs) < length xs" and "ys = xs[list_index i (length xs) := v]"
  using assms by (auto simp: list_setitem_def list_index_def Let_def split: if_splits)

lemma initializer_step:
  assumes run: "initializer_loop E bd batch (op # ops) s = Done () s'"
    and rv: "get_type_name (ov_model s) op = ''ReadValue''"
    and opL: "op < length (nodes (ov_model s))"
  shows "\<exists>m1. initializer_loop E bd batch ops (s\<lparr>ov_model := m1\<rparr>) = Done () s'
       \<and> length (nodes (ov_model s)) \<le> length (nodes m1)
       \<and> parameters m1 = parameters (ov_model s) \<and> results m1 = results (ov_model s)
       \<and> sinks m1 = sinks (ov_model s)
       \<and> (\<forall>i<length (nodes (ov_model s)). i \<noteq> op \<longrightarrow> nodes m1 ! i = nodes (ov_model s) ! i)
       \<and> (nodes m1 ! op)\<lparr>arguments := arguments (nodes (ov_model s) ! op)\<rparr>
            = nodes (ov_model s) ! op
       \<and> list_index bd (length (get_partial_shape (ov_model s) op))
            < length (get_partial_shape (ov_model s) op)
       \<and> initialized (length (nodes (ov_model s))) m1 batch
            (list_index bd (length (get_partial_shape (ov_model s) op)))
            (get_partial_shape (ov_model s) op) (get_output_element_type (ov_model s) op) op"
proof -
  let ?m = "ov_model s" let ?L = "length (nodes (ov_model s))"
  let ?shape = "get_partial_shape ?m op"
  let ?j = "list_index bd (length ?shape)"
  let ?entries = "map (\<lambda>dim. Extent (min_length dim)) ?shape"
  from run rv obtain dims where
    ls: "list_setitem ?entries bd (Node_output batch) = Inr dims"
    by (auto split: sum.splits)
  from list_setitem_Inr [OF ls] have j: "?j < length ?shape"
    and dims: "dims = ?entries[?j := Node_output batch]"
    by simp_all
  obtain ma cs where dc: "dim_constants ?m dims = (ma, cs)"
    by (cases "dim_constants ?m dims")
  from run rv ls dc obtain mb concat where cc: "opset13_concat E ma cs 0 = Inr (mb, concat)"
    by (auto split: sum.splits)
  obtain mc zero where zc: "opset13_constant mb (Zero (get_output_element_type mb op)) = (mc, zero)"
    by (cases "opset13_constant mb (Zero (get_output_element_type mb op))")
  from run rv ls dc cc zc obtain md bc where bb: "opset13_broadcast E mc zero concat = Inr (md, bc)"
    by (auto split: sum.splits)
  let ?m1 = "set_arguments md op [bc]"
  have rest: "initializer_loop E bd batch ops (s\<lparr>ov_model := ?m1\<rparr>) = Done () s'"
    using run rv ls dc cc zc bb by simp
  note D = dim_constants_spec [OF dc]
  note C = opset13_op_Inr [OF cc [unfolded opset13_concat_def]]
  note Z = opset13_constant_eq [OF zc]
  note B = opset13_op_Inr [OF bb [unfolded opset13_broadcast_def]]
  have ea: "extends ?m ma" using D by blast
  have eb: "extends ?m mb" using extends_trans [OF ea C(2)] .
  have ec: "extends ?m mc" using extends_trans [OF eb Z(2)] .
  have ed: "extends ?m md" using extends_trans [OF ec B(2)] .
  have la: "?L \<le> length (nodes ma)" using extends_length [OF ea] .
  have lb: "length (nodes mb) = Suc (length (nodes ma))" by (rule C(3))
  have lc: "length (nodes mc) = Suc (length (nodes mb))" by (rule Z(3))
  have ld: "length (nodes md) = Suc (length (nodes mc))" by (rule B(3))
  have l1: "length (nodes ?m1) = length (nodes md)" by (simp add: set_arguments_def)
  have other: "\<And>i. i \<noteq> op \<Longrightarrow> nodes ?m1 ! i = nodes md ! i"
    by (simp add: set_arguments_def)
  have opd: "op < length (nodes md)" using opL la lb lc ld by simp
  have at_op: "nodes ?m1 ! op = (nodes md ! op)\<lparr>arguments := [bc]\<rparr>"
    using opd by (simp add: set_arguments_def)
  have old_op: "nodes md ! op = nodes ?m ! op" using extends_nth [OF ed opL] .
  have ty: "get_output_element_type mb op = get_output_element_type ?m op"
    using extends_nth [OF eb opL] by (simp add: get_output_element_type_def)
  \<comment> \<open>the new nodes, as they stand in the final store\<close>
  have concat: "concat = length (nodes ma)" by (rule C(1))
  have zero: "zero = length (nodes mb)" by (rule Z(1))
  have bcn: "bc = length (nodes mc)" by (rule B(1))
  have ne: "concat \<noteq> op" "zero \<noteq> op" "bc \<noteq> op"
    using opL la lb lc concat zero bcn by simp_all
  have n_concat: "nodes ?m1 ! concat = nodes mb ! concat"
    using other [OF ne(1)] extends_nth [OF extends_trans [OF Z(2) B(2)], of concat] concat lb
    by simp
  have n_zero: "nodes ?m1 ! zero = nodes mc ! zero"
    using other [OF ne(2)] extends_nth [OF B(2), of zero] zero lc by simp
  have n_bc: "nodes ?m1 ! bc = nodes md ! bc" using other [OF ne(3)] .
  have n_dim: "\<And>c. ?L \<le> c \<Longrightarrow> c < length (nodes ma) \<Longrightarrow> nodes ?m1 ! c = nodes ma ! c"
  proof -
    fix c assume c: "?L \<le> c" "c < length (nodes ma)"
    then have "c \<noteq> op" using opL by simp
    moreover have "nodes md ! c = nodes ma ! c"
      using extends_nth [OF extends_trans [OF C(2) extends_trans [OF Z(2) B(2)]] c(2)] .
    ultimately show "nodes ?m1 ! c = nodes ma ! c" using other by simp
  qed
  have entry: "\<And>i. i < length ?shape \<Longrightarrow>
      dims ! i = (if i = ?j then Node_output batch else Extent (min_length (?shape ! i)))"
    using j by (simp add: dims nth_list_update)
  have ldims: "length dims = length ?shape" by (simp add: dims)
  have init: "initialized ?L ?m1 batch ?j ?shape (get_output_element_type ?m op) op"
    unfolding initialized_def
  proof (rule exI [of _ bc], rule exI [of _ zero], rule exI [of _ concat], rule exI [of _ cs],
         intro conjI allI impI)
    show "arguments (nodes ?m1 ! op) = [bc]" by (simp add: at_op)
    show "?L \<le> bc" using la lb lc bcn by simp
    show "bc < length (nodes ?m1)" using l1 ld bcn by simp
    show "type_name (nodes ?m1 ! bc) = ''Broadcast''" using n_bc B(4) by simp
    show "arguments (nodes ?m1 ! bc) = [zero, concat]" using n_bc B(5) by simp
    show "?L \<le> zero" using la lb zero by simp
    show "zero < length (nodes ?m1)" using l1 ld lc zero by simp
    show "type_name (nodes ?m1 ! zero) = ''Constant''" using n_zero Z(4) by simp
    show "attribute (nodes ?m1 ! zero) = Value (Zero (get_output_element_type ?m op))"
      using n_zero Z(6) ty by simp
    show "?L \<le> concat" using la concat by simp
    show "concat < length (nodes ?m1)" using l1 ld lc lb concat by simp
    show "type_name (nodes ?m1 ! concat) = ''Concat''" using n_concat C(4) by simp
    show "attribute (nodes ?m1 ! concat) = Axis 0" using n_concat C(6) by simp
    show "arguments (nodes ?m1 ! concat) = cs" using n_concat C(5) by simp
    show "length cs = length ?shape" using D ldims by simp
  next
    fix i assume i: "i < length ?shape"
    then have i': "i < length dims" using ldims by simp
    from D i' have Di: "case dims ! i of
            Extent v \<Rightarrow> ?L \<le> cs ! i \<and> cs ! i < length (nodes ma)
                       \<and> type_name (nodes ma ! (cs ! i)) = ''Constant''
                       \<and> attribute (nodes ma ! (cs ! i)) = Value (Vector [v])
          | Node_output p \<Rightarrow> cs ! i = p"
      by blast
    show "if i = ?j then cs ! i = batch
          else ?L \<le> cs ! i \<and> cs ! i < length (nodes ?m1) \<and>
               type_name (nodes ?m1 ! (cs ! i)) = ''Constant'' \<and>
               attribute (nodes ?m1 ! (cs ! i)) = Value (Vector [min_length (?shape ! i)])"
    proof (cases "i = ?j")
      case True
      then show ?thesis using Di entry [OF i] by simp
    next
      case False
      then have c: "?L \<le> cs ! i" "cs ! i < length (nodes ma)"
        "type_name (nodes ma ! (cs ! i)) = ''Constant''"
        "attribute (nodes ma ! (cs ! i)) = Value (Vector [min_length (?shape ! i)])"
        using Di entry [OF i] by simp_all
      have "cs ! i < length (nodes ?m1)" using c(2) l1 ld lc lb by simp
      then show ?thesis using False c n_dim [OF c(1,2)] by simp
    qed
  qed
  have frame: "\<forall>i<?L. i \<noteq> op \<longrightarrow> nodes ?m1 ! i = nodes ?m ! i"
    using other extends_nth [OF ed] by simp
  have same: "(nodes ?m1 ! op)\<lparr>arguments := arguments (nodes ?m ! op)\<rparr> = nodes ?m ! op"
    by (simp add: at_op old_op)
  have lens: "?L \<le> length (nodes ?m1)" using l1 la lb lc ld by simp
  have ps: "parameters ?m1 = parameters ?m" "results ?m1 = results ?m" "sinks ?m1 = sinks ?m"
    using ed by (simp_all add: set_arguments_def extends_def)
  show ?thesis
    using rest lens ps frame same j init by blast
qed

lemma initialized_transfer:
  assumes init: "initialized lo m batch j shape t op"
    and len: "length (nodes m) \<le> length (nodes m')"
    and op: "arguments (nodes m' ! op) = arguments (nodes m ! op)"
    and new: "\<And>c. lo \<le> c \<Longrightarrow> c < length (nodes m) \<Longrightarrow>
                type_name (nodes m' ! c) = type_name (nodes m ! c)
                \<and> arguments (nodes m' ! c) = arguments (nodes m ! c)
                \<and> attribute (nodes m' ! c) = attribute (nodes m ! c)"
  shows "initialized lo m' batch j shape t op"
proof -
  from init obtain broadcast zero concat dims where I:
    "arguments (nodes m ! op) = [broadcast]"
    "lo \<le> broadcast" "broadcast < length (nodes m)"
    "type_name (nodes m ! broadcast) = ''Broadcast''"
    "arguments (nodes m ! broadcast) = [zero, concat]"
    "lo \<le> zero" "zero < length (nodes m)"
    "type_name (nodes m ! zero) = ''Constant''"
    "attribute (nodes m ! zero) = Value (Zero t)"
    "lo \<le> concat" "concat < length (nodes m)"
    "type_name (nodes m ! concat) = ''Concat''"
    "attribute (nodes m ! concat) = Axis 0"
    "arguments (nodes m ! concat) = dims"
    "length dims = length shape"
    and E: "\<forall>i<length shape.
           if i = j then dims ! i = batch
           else lo \<le> dims ! i \<and> dims ! i < length (nodes m) \<and>
                type_name (nodes m ! (dims ! i)) = ''Constant'' \<and>
                attribute (nodes m ! (dims ! i)) = Value (Vector [min_length (shape ! i)])"
    unfolding initialized_def by blast
  note nb = new [OF I(2,3)] and nz = new [OF I(6,7)] and nc = new [OF I(10,11)]
  show ?thesis
    unfolding initialized_def
  proof (rule exI [of _ broadcast], rule exI [of _ zero], rule exI [of _ concat],
         rule exI [of _ dims], intro conjI allI impI)
    show "arguments (nodes m' ! op) = [broadcast]" using op I(1) by simp
    show "lo \<le> broadcast" "lo \<le> zero" "lo \<le> concat" by (rule I)+
    show "broadcast < length (nodes m')" "zero < length (nodes m')" "concat < length (nodes m')"
      using I(3,7,11) len by simp_all
    show "type_name (nodes m' ! broadcast) = ''Broadcast''" using nb I(4) by simp
    show "arguments (nodes m' ! broadcast) = [zero, concat]" using nb I(5) by simp
    show "type_name (nodes m' ! zero) = ''Constant''" using nz I(8) by simp
    show "attribute (nodes m' ! zero) = Value (Zero t)" using nz I(9) by simp
    show "type_name (nodes m' ! concat) = ''Concat''" using nc I(12) by simp
    show "attribute (nodes m' ! concat) = Axis 0" using nc I(13) by simp
    show "arguments (nodes m' ! concat) = dims" using nc I(14) by simp
    show "length dims = length shape" by (rule I(15))
  next
    fix i assume i: "i < length shape"
    show "if i = j then dims ! i = batch
          else lo \<le> dims ! i \<and> dims ! i < length (nodes m') \<and>
               type_name (nodes m' ! (dims ! i)) = ''Constant'' \<and>
               attribute (nodes m' ! (dims ! i)) = Value (Vector [min_length (shape ! i)])"
    proof (cases "i = j")
      case True
      then show ?thesis using E i by simp
    next
      case False
      then have d: "lo \<le> dims ! i" "dims ! i < length (nodes m)"
        "type_name (nodes m ! (dims ! i)) = ''Constant''"
        "attribute (nodes m ! (dims ! i)) = Value (Vector [min_length (shape ! i)])"
        using E i by simp_all
      from new [OF d(1,2)] d len False show ?thesis by simp
    qed
  qed
qed

lemma initialized_mono:
  assumes "initialized lo' m batch j shape t op" "lo \<le> lo'"
  shows "initialized lo m batch j shape t op"
proof -
  from assms(1) obtain broadcast zero concat dims where I:
    "arguments (nodes m ! op) = [broadcast]"
    "lo' \<le> broadcast" "broadcast < length (nodes m)"
    "type_name (nodes m ! broadcast) = ''Broadcast''"
    "arguments (nodes m ! broadcast) = [zero, concat]"
    "lo' \<le> zero" "zero < length (nodes m)"
    "type_name (nodes m ! zero) = ''Constant''"
    "attribute (nodes m ! zero) = Value (Zero t)"
    "lo' \<le> concat" "concat < length (nodes m)"
    "type_name (nodes m ! concat) = ''Concat''"
    "attribute (nodes m ! concat) = Axis 0"
    "arguments (nodes m ! concat) = dims"
    "length dims = length shape"
    and E: "\<forall>i<length shape.
           if i = j then dims ! i = batch
           else lo' \<le> dims ! i \<and> dims ! i < length (nodes m) \<and>
                type_name (nodes m ! (dims ! i)) = ''Constant'' \<and>
                attribute (nodes m ! (dims ! i)) = Value (Vector [min_length (shape ! i)])"
    unfolding initialized_def by blast
  show ?thesis
    unfolding initialized_def
  proof (rule exI [of _ broadcast], rule exI [of _ zero], rule exI [of _ concat],
         rule exI [of _ dims], intro conjI allI impI)
    show "lo \<le> broadcast" "lo \<le> zero" "lo \<le> concat" using I(2,6,10) assms(2) by simp_all
  next
    fix i assume i: "i < length shape"
    show "if i = j then dims ! i = batch
          else lo \<le> dims ! i \<and> dims ! i < length (nodes m) \<and>
               type_name (nodes m ! (dims ! i)) = ''Constant'' \<and>
               attribute (nodes m ! (dims ! i)) = Value (Vector [min_length (shape ! i)])"
    proof (cases "i = j")
      case True
      then show ?thesis using E i by simp
    next
      case False
      then have "lo' \<le> dims ! i \<and> dims ! i < length (nodes m) \<and>
                type_name (nodes m ! (dims ! i)) = ''Constant'' \<and>
                attribute (nodes m ! (dims ! i)) = Value (Vector [min_length (shape ! i)])"
        using E i by simp
      then show ?thesis using False assms(2) by simp
    qed
  qed (rule I)+
qed

lemma initializer_loop_spec:
  assumes "initializer_loop E bd batch ops s = Done () s'"
    and "\<forall>op\<in>set ops. op < length (nodes (ov_model s))" and "distinct ops"
  shows "length (nodes (ov_model s)) \<le> length (nodes (ov_model s'))
       \<and> parameters (ov_model s') = parameters (ov_model s)
       \<and> results (ov_model s') = results (ov_model s)
       \<and> sinks (ov_model s') = sinks (ov_model s)
       \<and> not_kv_inputs s' = not_kv_inputs s \<and> stdout s' = stdout s
       \<and> (\<forall>i<length (nodes (ov_model s)).
            if i \<in> set ops \<and> type_name (nodes (ov_model s) ! i) = ''ReadValue''
            then (nodes (ov_model s') ! i)\<lparr>arguments := arguments (nodes (ov_model s) ! i)\<rparr>
                   = nodes (ov_model s) ! i
                 \<and> list_index bd (length (output_partial_shape (nodes (ov_model s) ! i)))
                     < length (output_partial_shape (nodes (ov_model s) ! i))
                 \<and> initialized (length (nodes (ov_model s))) (ov_model s') batch
                     (list_index bd (length (output_partial_shape (nodes (ov_model s) ! i))))
                     (output_partial_shape (nodes (ov_model s) ! i))
                     (output_element_type (nodes (ov_model s) ! i)) i
            else nodes (ov_model s') ! i = nodes (ov_model s) ! i)"
  using assms
proof (induction ops arbitrary: s)
  case Nil
  then show ?case by simp
next
  case (Cons op ops)
  let ?m = "ov_model s" let ?L = "length (nodes (ov_model s))"
  have opL: "op < ?L" using Cons.prems(2) by simp
  have opn: "op \<notin> set ops" and dist: "distinct ops" using Cons.prems(3) by simp_all
  show ?case
  proof (cases "get_type_name ?m op = ''ReadValue''")
    case False
    then have rest: "initializer_loop E bd batch ops s = Done () s'"
      using Cons.prems(1) by simp
    have b: "\<forall>op\<in>set ops. op < ?L" using Cons.prems(2) by simp
    note IH = Cons.IH [OF rest b dist]
    have "\<And>i. (i \<in> set (op # ops) \<and> type_name (nodes ?m ! i) = ''ReadValue'')
             = (i \<in> set ops \<and> type_name (nodes ?m ! i) = ''ReadValue'')"
      using False by (auto simp: get_type_name_def)
    then show ?thesis using IH by simp
  next
    case True
    from initializer_step [OF Cons.prems(1) True opL] obtain m1 where
      rest: "initializer_loop E bd batch ops (s\<lparr>ov_model := m1\<rparr>) = Done () s'"
      and l1: "?L \<le> length (nodes m1)"
      and ps: "parameters m1 = parameters ?m" "results m1 = results ?m" "sinks m1 = sinks ?m"
      and frame: "\<forall>i<?L. i \<noteq> op \<longrightarrow> nodes m1 ! i = nodes ?m ! i"
      and same: "(nodes m1 ! op)\<lparr>arguments := arguments (nodes ?m ! op)\<rparr> = nodes ?m ! op"
      and j: "list_index bd (length (get_partial_shape ?m op)) < length (get_partial_shape ?m op)"
      and init: "initialized ?L m1 batch (list_index bd (length (get_partial_shape ?m op)))
                   (get_partial_shape ?m op) (get_output_element_type ?m op) op"
      by blast
    have m1: "ov_model (s\<lparr>ov_model := m1\<rparr>) = m1" by simp
    have b: "\<forall>op\<in>set ops. op < length (nodes (ov_model (s\<lparr>ov_model := m1\<rparr>)))"
      using Cons.prems(2) l1 by auto
    note IH = Cons.IH [OF rest b dist, unfolded m1]
    have l': "length (nodes m1) \<le> length (nodes (ov_model s'))" using IH by blast
    have untouched: "\<And>c. c < length (nodes m1) \<Longrightarrow> c \<notin> set ops \<Longrightarrow>
                       nodes (ov_model s') ! c = nodes m1 ! c"
      using IH by (metis (no_types, lifting))
    have fresh: "\<And>c. ?L \<le> c \<Longrightarrow> c \<notin> set ops" using Cons.prems(2) by auto
    have op1: "op < length (nodes m1)" using opL l1 by simp
    have at_op: "nodes (ov_model s') ! op = nodes m1 ! op" using untouched [OF op1 opn] .
    have init': "initialized ?L (ov_model s') batch
                   (list_index bd (length (get_partial_shape ?m op)))
                   (get_partial_shape ?m op) (get_output_element_type ?m op) op"
    proof (rule initialized_transfer [OF init l'])
      show "arguments (nodes (ov_model s') ! op) = arguments (nodes m1 ! op)"
        by (simp add: at_op)
    next
      fix c assume "?L \<le> c" "c < length (nodes m1)"
      then have "nodes (ov_model s') ! c = nodes m1 ! c" using untouched fresh by simp
      then show "type_name (nodes (ov_model s') ! c) = type_name (nodes m1 ! c)
                \<and> arguments (nodes (ov_model s') ! c) = arguments (nodes m1 ! c)
                \<and> attribute (nodes (ov_model s') ! c) = attribute (nodes m1 ! c)"
        by simp
    qed
    show ?thesis
    proof (intro conjI allI impI)
      show "?L \<le> length (nodes (ov_model s'))" using l1 l' by simp
      show "parameters (ov_model s') = parameters ?m" using IH ps by simp
      show "results (ov_model s') = results ?m" using IH ps by simp
      show "sinks (ov_model s') = sinks ?m" using IH ps by simp
      show "not_kv_inputs s' = not_kv_inputs s" using IH by simp
      show "stdout s' = stdout s" using IH by simp
    next
      fix i assume i: "i < ?L"
      then have i1: "i < length (nodes m1)" using l1 by simp
      let ?P = "\<lambda>m0 lo. (nodes (ov_model s') ! i)\<lparr>arguments := arguments (nodes m0 ! i)\<rparr>
                   = nodes m0 ! i
                 \<and> list_index bd (length (output_partial_shape (nodes m0 ! i)))
                     < length (output_partial_shape (nodes m0 ! i))
                 \<and> initialized lo (ov_model s') batch
                     (list_index bd (length (output_partial_shape (nodes m0 ! i))))
                     (output_partial_shape (nodes m0 ! i))
                     (output_element_type (nodes m0 ! i)) i"
      show "if i \<in> set (op # ops) \<and> type_name (nodes ?m ! i) = ''ReadValue''
            then ?P ?m ?L else nodes (ov_model s') ! i = nodes ?m ! i"
      proof (cases "i = op")
        case True
        have P: "?P ?m ?L"
          unfolding True
          using same j init'
          by (simp add: at_op get_partial_shape_def get_output_element_type_def)
        have "type_name (nodes ?m ! op) = ''ReadValue''"
          using \<open>get_type_name ?m op = ''ReadValue''\<close> by (simp add: get_type_name_def)
        then have c: "i \<in> set (op # ops) \<and> type_name (nodes ?m ! i) = ''ReadValue''"
          using True by simp
        show ?thesis unfolding if_P [OF c] by (rule P)
      next
        case False
        then have eq: "nodes m1 ! i = nodes ?m ! i" using frame i by simp
        from IH i1 have I: "if i \<in> set ops \<and> type_name (nodes m1 ! i) = ''ReadValue''
            then ?P m1 (length (nodes m1)) else nodes (ov_model s') ! i = nodes m1 ! i"
          by blast
        show ?thesis
        proof (cases "i \<in> set ops \<and> type_name (nodes ?m ! i) = ''ReadValue''")
          case True
          then have "?P m1 (length (nodes m1))" using I eq by simp
          then have P: "?P ?m ?L"
            unfolding eq using initialized_mono [OF _ l1] by blast
          have c: "i \<in> set (op # ops) \<and> type_name (nodes ?m ! i) = ''ReadValue''"
            using True by simp
          show ?thesis unfolding if_P [OF c] by (rule P)
        next
          case False
          then have Q: "nodes (ov_model s') ! i = nodes ?m ! i" using I eq by simp
          have c: "\<not> (i \<in> set (op # ops) \<and> type_name (nodes ?m ! i) = ''ReadValue'')"
            using False \<open>i \<noteq> op\<close> by simp
          show ?thesis unfolding if_not_P [OF c] by (rule Q)
        qed
      qed
    qed
  qed
qed

subsection \<open>The nodes of the graph\<close>

lemma get_ops_bound: "op \<in> set (get_ops m) \<Longrightarrow> op < length (nodes m)"
  by (simp add: get_ops_def)

lemma get_ops_distinct: "distinct (get_ops m)"
  by (simp add: get_ops_def)

lemma reach_contains: "set xs \<subseteq> set (reach m k xs)"
proof (induction k arbitrary: xs)
  case 0
  then show ?case by simp
next
  case (Suc k)
  have "set xs \<subseteq> set (remdups (xs @ sources m xs))" by simp
  also have "\<dots> \<subseteq> set (reach m k (remdups (xs @ sources m xs)))" by (rule Suc.IH)
  finally show ?case by simp
qed

lemma sources_mono:
  assumes "extends m m'" "set xs \<subseteq> set ys"
  shows "set (sources m xs) \<subseteq> set (sources m' ys)"
proof
  fix a assume "a \<in> set (sources m xs)"
  then obtain i where i: "i \<in> set xs" "i < length (nodes m)" "a \<in> set (arguments (nodes m ! i))"
    by (auto simp: sources_def split: if_splits)
  have "i < length (nodes m')" using i(2) extends_length [OF assms(1)] by simp
  moreover have "nodes m' ! i = nodes m ! i" using extends_nth [OF assms(1) i(2)] .
  moreover have "i \<in> set ys" using i(1) assms(2) by blast
  ultimately show "a \<in> set (sources m' ys)"
    using i(3) by (auto simp: sources_def intro!: bexI [of _ i])
qed

lemma reach_mono:
  assumes "extends m m'"
  shows "set xs \<subseteq> set ys \<Longrightarrow> k \<le> k' \<Longrightarrow> set (reach m k xs) \<subseteq> set (reach m' k' ys)"
proof (induction k arbitrary: xs ys k')
  case 0
  then show ?case using reach_contains [of ys m' k'] by simp
next
  case (Suc k)
  then obtain k'' where k': "k' = Suc k''" and le: "k \<le> k''" by (cases k') simp_all
  have "set (remdups (xs @ sources m xs)) \<subseteq> set (remdups (ys @ sources m' ys))"
    using Suc.prems(1) sources_mono [OF assms Suc.prems(1)] by auto
  from Suc.IH [OF this le] show ?case by (simp add: k')
qed

lemma get_ops_extends:
  assumes "extends m m'"
  shows "set (get_ops m) \<subseteq> set (get_ops m')"
proof
  fix op assume op: "op \<in> set (get_ops m)"
  have roots: "set (results m @ sinks m @ parameters m) \<subseteq> set (results m' @ sinks m' @ parameters m')"
    using assms by (simp add: extends_def)
  have "op \<in> set (reach m (length (nodes m)) (results m @ sinks m @ parameters m))"
    using op by (simp add: get_ops_def)
  then have "op \<in> set (reach m' (length (nodes m')) (results m' @ sinks m' @ parameters m'))"
    using reach_mono [OF assms roots extends_length [OF assms]] by blast
  moreover have "op < length (nodes m')"
    using get_ops_bound [OF op] extends_length [OF assms] by simp
  ultimately show "op \<in> set (get_ops m')" by (simp add: get_ops_def)
qed

subsection \<open>The state initializer\<close>

lemma build_state_initializer_Done:
  assumes "build_state_initializer E bd s = Done () s'"
  shows "\<exists>ids m4 s2. model_input (ov_model s) ''input_ids'' = Inr ids
       \<and> extends (ov_model s) m4 \<and> length (nodes m4) = length (nodes (ov_model s)) + 4
       \<and> type_name (nodes m4 ! length (nodes (ov_model s))) = ''ShapeOf''
       \<and> arguments (nodes m4 ! length (nodes (ov_model s))) = [ids]
       \<and> attribute (nodes m4 ! length (nodes (ov_model s))) = Output_type i64
       \<and> type_name (nodes m4 ! (length (nodes (ov_model s)) + 1)) = ''Constant''
       \<and> attribute (nodes m4 ! (length (nodes (ov_model s)) + 1)) = Value (Vector [0])
       \<and> type_name (nodes m4 ! (length (nodes (ov_model s)) + 2)) = ''Constant''
       \<and> attribute (nodes m4 ! (length (nodes (ov_model s)) + 2)) = Value (Scalar 0)
       \<and> type_name (nodes m4 ! (length (nodes (ov_model s)) + 3)) = ''Gather''
       \<and> arguments (nodes m4 ! (length (nodes (ov_model s)) + 3))
           = [length (nodes (ov_model s)), length (nodes (ov_model s)) + 1,
              length (nodes (ov_model s)) + 2]
       \<and> initializer_loop E bd (length (nodes (ov_model s)) + 3) (get_ops m4)
            (s\<lparr>ov_model := m4\<rparr>) = Done () s2
       \<and> validate_nodes_and_infer_types E s2 = Done () s'"
proof -
  let ?m = "ov_model s" let ?L = "length (nodes (ov_model s))"
  from assms obtain ids where ids: "model_input ?m ''input_ids'' = Inr ids"
    by (auto simp: build_state_initializer_def split: sum.splits)
  from assms ids obtain m1 shape_of where so: "opset13_shape_of E ?m ids i64 = Inr (m1, shape_of)"
    by (auto simp: build_state_initializer_def split: sum.splits)
  obtain m2 indices where ic: "opset13_constant m1 (Vector [0]) = (m2, indices)"
    by (cases "opset13_constant m1 (Vector [0])")
  obtain m3 axis where ac: "opset13_constant m2 (Scalar 0) = (m3, axis)"
    by (cases "opset13_constant m2 (Scalar 0)")
  from assms ids so ic ac obtain m4 batch where
    gc: "opset13_gather E m3 shape_of indices axis = Inr (m4, batch)"
    by (auto simp: build_state_initializer_def split: sum.splits)
  from assms ids so ic ac gc obtain s2 where
    loop: "initializer_loop E bd batch (get_ops m4) (s\<lparr>ov_model := m4\<rparr>) = Done () s2"
    and val: "validate_nodes_and_infer_types E s2 = Done () s'"
    by (auto simp: build_state_initializer_def bind_result_def split: result.splits)
  note S = opset13_op_Inr [OF so [unfolded opset13_shape_of_def]]
  note I = opset13_constant_eq [OF ic]
  note A = opset13_constant_eq [OF ac]
  note G = opset13_op_Inr [OF gc [unfolded opset13_gather_def]]
  have ids': "shape_of = ?L" "indices = ?L + 1" "axis = ?L + 2" "batch = ?L + 3"
    using S(1,3) I(1,3) A(1,3) G(1) by simp_all
  have e4: "extends ?m m4"
    using extends_trans [OF S(2) extends_trans [OF I(2) extends_trans [OF A(2) G(2)]]] .
  have l4: "length (nodes m4) = ?L + 4" using S(3) I(3) A(3) G(3) by simp
  have n_so: "nodes m4 ! shape_of = nodes m1 ! shape_of"
    using extends_nth [OF extends_trans [OF I(2) extends_trans [OF A(2) G(2)]], of shape_of]
      S(1,3) by simp
  have n_in: "nodes m4 ! indices = nodes m2 ! indices"
    using extends_nth [OF extends_trans [OF A(2) G(2)], of indices] I(1,3) by simp
  have n_ax: "nodes m4 ! axis = nodes m3 ! axis"
    using extends_nth [OF G(2), of axis] A(1,3) by simp
  have f1: "type_name (nodes m4 ! shape_of) = ''ShapeOf''"
    "arguments (nodes m4 ! shape_of) = [ids]" "attribute (nodes m4 ! shape_of) = Output_type i64"
    using n_so S(4,5,6) by simp_all
  have f2: "type_name (nodes m4 ! indices) = ''Constant''"
    "attribute (nodes m4 ! indices) = Value (Vector [0])"
    using n_in I(4,6) by simp_all
  have f3: "type_name (nodes m4 ! axis) = ''Constant''"
    "attribute (nodes m4 ! axis) = Value (Scalar 0)"
    using n_ax A(4,6) by simp_all
  have f4: "type_name (nodes m4 ! batch) = ''Gather''"
    "arguments (nodes m4 ! batch) = [shape_of, indices, axis]"
    using G(4,5) by simp_all
  show ?thesis
    using ids e4 l4 f1 f2 f3 f4 loop val unfolding ids' by blast
qed

lemma build_state_initializer_spec:
  assumes run: "build_state_initializer E bd s = Done () s'"
  shows "\<exists>ids. model_input (ov_model s) ''input_ids'' = Inr ids
       \<and> batch_extent (ov_model s') ids (length (nodes (ov_model s)) + 3)
       \<and> (\<forall>r\<in>set (get_ops (ov_model s)).
             type_name (nodes (ov_model s) ! r) = ''ReadValue'' \<longrightarrow>
               list_index bd (length (get_partial_shape (ov_model s) r))
                 < length (get_partial_shape (ov_model s) r)
               \<and> initialized (length (nodes (ov_model s))) (ov_model s')
                   (length (nodes (ov_model s)) + 3)
                   (list_index bd (length (get_partial_shape (ov_model s) r)))
                   (get_partial_shape (ov_model s) r) (get_output_element_type (ov_model s) r) r)"
proof -
  let ?m = "ov_model s" let ?L = "length (nodes (ov_model s))"
  from build_state_initializer_Done [OF run] obtain ids m4 s2 where
    ids: "model_input ?m ''input_ids'' = Inr ids"
    and e4: "extends ?m m4" and l4: "length (nodes m4) = ?L + 4"
    and B: "type_name (nodes m4 ! ?L) = ''ShapeOf''"
      "arguments (nodes m4 ! ?L) = [ids]"
      "attribute (nodes m4 ! ?L) = Output_type i64"
      "type_name (nodes m4 ! (?L + 1)) = ''Constant''"
      "attribute (nodes m4 ! (?L + 1)) = Value (Vector [0])"
      "type_name (nodes m4 ! (?L + 2)) = ''Constant''"
      "attribute (nodes m4 ! (?L + 2)) = Value (Scalar 0)"
      "type_name (nodes m4 ! (?L + 3)) = ''Gather''"
      "arguments (nodes m4 ! (?L + 3)) = [?L, ?L + 1, ?L + 2]"
    and loop: "initializer_loop E bd (?L + 3) (get_ops m4) (s\<lparr>ov_model := m4\<rparr>) = Done () s2"
    and val: "validate_nodes_and_infer_types E s2 = Done () s'"
    by blast
  have b: "\<forall>op\<in>set (get_ops m4). op < length (nodes (ov_model (s\<lparr>ov_model := m4\<rparr>)))"
    using get_ops_bound by simp
  have m4: "ov_model (s\<lparr>ov_model := m4\<rparr>) = m4" by simp
  note Lp = initializer_loop_spec [OF loop b get_ops_distinct, unfolded m4]
  have every: "\<And>i. i < length (nodes m4) \<Longrightarrow>
            if i \<in> set (get_ops m4) \<and> type_name (nodes m4 ! i) = ''ReadValue''
            then (nodes (ov_model s2) ! i)\<lparr>arguments := arguments (nodes m4 ! i)\<rparr> = nodes m4 ! i
                 \<and> list_index bd (length (output_partial_shape (nodes m4 ! i)))
                     < length (output_partial_shape (nodes m4 ! i))
                 \<and> initialized (length (nodes m4)) (ov_model s2) (?L + 3)
                     (list_index bd (length (output_partial_shape (nodes m4 ! i))))
                     (output_partial_shape (nodes m4 ! i))
                     (output_element_type (nodes m4 ! i)) i
            else nodes (ov_model s2) ! i = nodes m4 ! i"
    using Lp by blast
  note V = validate_Done [OF val]
  have l2: "length (nodes m4) \<le> length (nodes (ov_model s2))" using Lp by blast
  have keep: "\<And>c. c < length (nodes (ov_model s2)) \<Longrightarrow>
                type_name (nodes (ov_model s') ! c) = type_name (nodes (ov_model s2) ! c)
                \<and> arguments (nodes (ov_model s') ! c) = arguments (nodes (ov_model s2) ! c)
                \<and> attribute (nodes (ov_model s') ! c) = attribute (nodes (ov_model s2) ! c)"
    using V(1) V(5) by (simp add: keeps_def)
  have stay: "\<And>c. c < length (nodes m4) \<Longrightarrow> type_name (nodes m4 ! c) \<noteq> ''ReadValue'' \<Longrightarrow>
                  type_name (nodes (ov_model s') ! c) = type_name (nodes m4 ! c)
                  \<and> arguments (nodes (ov_model s') ! c) = arguments (nodes m4 ! c)
                  \<and> attribute (nodes (ov_model s') ! c) = attribute (nodes m4 ! c)"
  proof -
    fix c assume c: "c < length (nodes m4)" "type_name (nodes m4 ! c) \<noteq> ''ReadValue''"
    then have "nodes (ov_model s2) ! c = nodes m4 ! c" using every [OF c(1)] by simp
    moreover have "c < length (nodes (ov_model s2))" using c(1) l2 by simp
    ultimately show "type_name (nodes (ov_model s') ! c) = type_name (nodes m4 ! c)
                  \<and> arguments (nodes (ov_model s') ! c) = arguments (nodes m4 ! c)
                  \<and> attribute (nodes (ov_model s') ! c) = attribute (nodes m4 ! c)"
      using keep by simp
  qed
  have be: "batch_extent (ov_model s') ids (?L + 3)"
  proof -
    have s0: "type_name (nodes (ov_model s') ! ?L) = ''ShapeOf''
            \<and> arguments (nodes (ov_model s') ! ?L) = [ids]
            \<and> attribute (nodes (ov_model s') ! ?L) = Output_type i64"
      using stay [of ?L] l4 B(1,2,3) by simp
    have s1: "type_name (nodes (ov_model s') ! (?L + 1)) = ''Constant''
            \<and> attribute (nodes (ov_model s') ! (?L + 1)) = Value (Vector [0])"
      using stay [of "?L + 1"] l4 B(4,5) by simp
    have s2: "type_name (nodes (ov_model s') ! (?L + 2)) = ''Constant''
            \<and> attribute (nodes (ov_model s') ! (?L + 2)) = Value (Scalar 0)"
      using stay [of "?L + 2"] l4 B(6,7) by simp
    have s3: "type_name (nodes (ov_model s') ! (?L + 3)) = ''Gather''
            \<and> arguments (nodes (ov_model s') ! (?L + 3)) = [?L, ?L + 1, ?L + 2]"
      using stay [of "?L + 3"] l4 B(8,9) by simp
    show ?thesis
      unfolding batch_extent_def
      using s0 s1 s2 s3 by blast
  qed
  have reads: "\<forall>r\<in>set (get_ops ?m).
             type_name (nodes ?m ! r) = ''ReadValue'' \<longrightarrow>
               list_index bd (length (get_partial_shape ?m r)) < length (get_partial_shape ?m r)
               \<and> initialized ?L (ov_model s') (?L + 3)
                   (list_index bd (length (get_partial_shape ?m r)))
                   (get_partial_shape ?m r) (get_output_element_type ?m r) r"
  proof (intro ballI impI)
    fix r assume r: "r \<in> set (get_ops ?m)" and rv: "type_name (nodes ?m ! r) = ''ReadValue''"
    have rL: "r < ?L" using get_ops_bound [OF r] .
    have r4: "r \<in> set (get_ops m4)" using get_ops_extends [OF e4] r by blast
    have n4: "nodes m4 ! r = nodes ?m ! r" using extends_nth [OF e4 rL] .
    have rl4: "r < length (nodes m4)" using rL l4 by simp
    have c: "r \<in> set (get_ops m4) \<and> type_name (nodes m4 ! r) = ''ReadValue''"
      using r4 rv n4 by simp
    note X = every [OF rl4, unfolded if_P [OF c]]
    from X [unfolded n4] have
      same: "(nodes (ov_model s2) ! r)\<lparr>arguments := arguments (nodes ?m ! r)\<rparr> = nodes ?m ! r"
      and j: "list_index bd (length (output_partial_shape (nodes ?m ! r)))
                < length (output_partial_shape (nodes ?m ! r))"
      and init: "initialized (length (nodes m4)) (ov_model s2) (?L + 3)
                     (list_index bd (length (output_partial_shape (nodes ?m ! r))))
                     (output_partial_shape (nodes ?m ! r))
                     (output_element_type (nodes ?m ! r)) r"
      by blast+
    have le: "?L \<le> length (nodes m4)" using l4 by simp
    note init0 = initialized_mono [OF init le]
    have r2: "r < length (nodes (ov_model s2))" using rl4 l2 by simp
    have "initialized ?L (ov_model s') (?L + 3)
                     (list_index bd (length (output_partial_shape (nodes ?m ! r))))
                     (output_partial_shape (nodes ?m ! r))
                     (output_element_type (nodes ?m ! r)) r"
    proof (rule initialized_transfer [OF init0])
      show "length (nodes (ov_model s2)) \<le> length (nodes (ov_model s'))" using V(2) by simp
      show "arguments (nodes (ov_model s') ! r) = arguments (nodes (ov_model s2) ! r)"
        using keep [OF r2] by simp
    next
      fix c assume "?L \<le> c" "c < length (nodes (ov_model s2))"
      then show "type_name (nodes (ov_model s') ! c) = type_name (nodes (ov_model s2) ! c)
                \<and> arguments (nodes (ov_model s') ! c) = arguments (nodes (ov_model s2) ! c)
                \<and> attribute (nodes (ov_model s') ! c) = attribute (nodes (ov_model s2) ! c)"
        using keep by simp
    qed
    then show "list_index bd (length (get_partial_shape ?m r)) < length (get_partial_shape ?m r)
               \<and> initialized ?L (ov_model s') (?L + 3)
                   (list_index bd (length (get_partial_shape ?m r)))
                   (get_partial_shape ?m r) (get_output_element_type ?m r) r"
      using j by (simp add: get_partial_shape_def get_output_element_type_def)
  qed
  show ?thesis using ids be reads by blast
qed

lemma make_stateful_unpinned:
  "make_stateful E kin kout bd h None s =
     bind_result
       (apply_make_stateful_transformation E
          (fold (\<lambda>pair. AList.update (fst pair) (snd pair)) (zip kin kout) []) s)
       (\<lambda>_. build_state_initializer E bd)"
  by (simp add: make_stateful_def kv_loop_None)

lemma make_stateful_pinned_graph:
  assumes "make_stateful E kin kout bd h (Some b) s = Done () s'"
  shows "\<exists>io s3. pin_batch E kin kout bd h b s = Done io s3
           \<and> make_stateful_transformation E (ov_model s3) io = Some (ov_model s')"
proof -
  from assms obtain io s3 where pb: "pin_batch E kin kout bd h b s = Done io s3"
    and tr: "apply_make_stateful_transformation E io s3 = Done () s'"
    by (auto simp: make_stateful_pinned bind_result_def split: result.splits)
  from tr have "make_stateful_transformation E (ov_model s3) io = Some (ov_model s')"
    by (auto simp: apply_make_stateful_transformation_def split: option.splits)
  then show ?thesis using pb by blast
qed

text \<open>
  Claim C2. Without a pinned size \<open>make_stateful\<close> is the engine's transformation
  followed by \<open>build_state_initializer\<close>; with a pinned size it ends with the
  transformation, and the graph it returns is the one the transformation returned. When
  \<open>build_state_initializer\<close> completes, every ReadValue node of the graph it was given
  has as its only argument a Broadcast of the zero constant of the node's output element
  type to the shape concatenated, along axis 0, from one entry per dimension of the node's
  output shape: at the position \<open>batch_dim\<close> the node holding the extent of axis 0 of
  \<open>input_ids\<close>, at every other position a constant holding the dimension's minimum
  length.
\<close>

theorem make_stateful_builds_initializer:
  "make_stateful E kin kout bd h None s =
     bind_result
       (apply_make_stateful_transformation E
          (fold (\<lambda>pair. AList.update (fst pair) (snd pair)) (zip kin kout) []) s)
       (\<lambda>_. build_state_initializer E bd)
   \<and> make_stateful E kin kout bd h (Some b) s =
       bind_result (pin_batch E kin kout bd h b s)
         (\<lambda>io s3. bind_result (apply_make_stateful_transformation E io s3) (\<lambda>_ s4. Done () s4))
   \<and> (\<forall>s'. make_stateful E kin kout bd h (Some b) s = Done () s' \<longrightarrow>
          (\<exists>io s3. pin_batch E kin kout bd h b s = Done io s3
             \<and> make_stateful_transformation E (ov_model s3) io = Some (ov_model s')))
   \<and> (\<forall>s4 s'. build_state_initializer E bd s4 = Done () s' \<longrightarrow>
          (\<exists>ids. model_input (ov_model s4) ''input_ids'' = Inr ids
             \<and> batch_extent (ov_model s') ids (length (nodes (ov_model s4)) + 3)
             \<and> (\<forall>r\<in>set (get_ops (ov_model s4)).
                   type_name (nodes (ov_model s4) ! r) = ''ReadValue'' \<longrightarrow>
                     list_index bd (length (get_partial_shape (ov_model s4) r))
                       < length (get_partial_shape (ov_model s4) r)
                     \<and> initialized (length (nodes (ov_model s4))) (ov_model s')
                         (length (nodes (ov_model s4)) + 3)
                         (list_index bd (length (get_partial_shape (ov_model s4) r)))
                         (get_partial_shape (ov_model s4) r)
                         (get_output_element_type (ov_model s4) r) r)))"
  using make_stateful_unpinned make_stateful_pinned make_stateful_pinned_graph
    build_state_initializer_spec
  by (intro conjI allI impI) blast+

theorem make_stateful_builds_initializer_witness:
  "make_stateful reference_engine [''past_key''] [''present_key''] 0 1 None fused_example
     = Done () stateful_example
   \<and> build_state_initializer reference_engine 0 transformed_example = Done () stateful_example
   \<and> 1 \<in> set (get_ops (ov_model transformed_example))
   \<and> type_name (nodes (ov_model transformed_example) ! 1) = ''ReadValue''
   \<and> initialized 9 (ov_model stateful_example) 12 0 kv_shape f32 1
   \<and> batch_extent (ov_model stateful_example) 0 12"
proof -
  have "is_done (apply_make_stateful_transformation reference_engine
                   [(''past_key'', ''present_key'')] fused_example)"
    by code_simp
  then have tr: "apply_make_stateful_transformation reference_engine
                   [(''past_key'', ''present_key'')] fused_example = Done () transformed_example"
    unfolding transformed_example_def by (rule is_done_state_of)
  have "is_done (build_state_initializer reference_engine 0 transformed_example)"
    by code_simp
  then have bs: "build_state_initializer reference_engine 0 transformed_example
                   = Done () stateful_example"
    unfolding stateful_example_def by (rule is_done_state_of)
  note T = make_stateful_builds_initializer
             [of reference_engine "[''past_key'']" "[''present_key'']" 0 1 fused_example]
  have io: "fold (\<lambda>pair. AList.update (fst pair) (snd pair))
              (zip [''past_key''] [''present_key'']) [] = [(''past_key'', ''present_key'')]"
    by simp
  have run: "make_stateful reference_engine [''past_key''] [''present_key''] 0 1 None
               fused_example = Done () stateful_example"
    using T [THEN conjunct1] by (simp add: io tr bs)
  have spec: "\<exists>ids. model_input (ov_model transformed_example) ''input_ids'' = Inr ids
             \<and> batch_extent (ov_model stateful_example) ids
                 (length (nodes (ov_model transformed_example)) + 3)
             \<and> (\<forall>r\<in>set (get_ops (ov_model transformed_example)).
                   type_name (nodes (ov_model transformed_example) ! r) = ''ReadValue'' \<longrightarrow>
                     list_index 0 (length (get_partial_shape (ov_model transformed_example) r))
                       < length (get_partial_shape (ov_model transformed_example) r)
                     \<and> initialized (length (nodes (ov_model transformed_example)))
                         (ov_model stateful_example)
                         (length (nodes (ov_model transformed_example)) + 3)
                         (list_index 0 (length (get_partial_shape (ov_model transformed_example) r)))
                         (get_partial_shape (ov_model transformed_example) r)
                         (get_output_element_type (ov_model transformed_example) r) r)"
    using T [THEN conjunct2, THEN conjunct2, THEN conjunct2, rule_format, OF bs] .
  have l: "length (nodes (ov_model transformed_example)) = 9" by code_simp
  have ids: "model_input (ov_model transformed_example) ''input_ids'' = Inr 0" by code_simp
  have mem: "1 \<in> set (get_ops (ov_model transformed_example))" by code_simp
  have rv: "type_name (nodes (ov_model transformed_example) ! 1) = ''ReadValue''" by code_simp
  have sh: "get_partial_shape (ov_model transformed_example) 1 = kv_shape" by code_simp
  have ty: "get_output_element_type (ov_model transformed_example) 1 = f32" by code_simp
  have li: "list_index 0 (length kv_shape) = 0" by code_simp
  from spec obtain ids' where s1: "model_input (ov_model transformed_example) ''input_ids'' = Inr ids'"
    and s2: "batch_extent (ov_model stateful_example) ids' (9 + 3)"
    and s3: "\<forall>r\<in>set (get_ops (ov_model transformed_example)).
                   type_name (nodes (ov_model transformed_example) ! r) = ''ReadValue'' \<longrightarrow>
                     list_index 0 (length (get_partial_shape (ov_model transformed_example) r))
                       < length (get_partial_shape (ov_model transformed_example) r)
                     \<and> initialized 9 (ov_model stateful_example) (9 + 3)
                         (list_index 0 (length (get_partial_shape (ov_model transformed_example) r)))
                         (get_partial_shape (ov_model transformed_example) r)
                         (get_output_element_type (ov_model transformed_example) r) r"
    unfolding l by blast
  have be: "batch_extent (ov_model stateful_example) 0 12" using s1 s2 ids by simp
  from s3 [THEN bspec, OF mem, THEN mp, OF rv]
  have init: "initialized 9 (ov_model stateful_example) 12 0 kv_shape f32 1"
    unfolding sh ty li by simp
  show ?thesis
    by (intro conjI run bs mem rv init be)
qed

text \<open>
  Claim C10. On a graph without an input named \<open>input_ids\<close> both functions fail, and
  what they leave is the state they were given. When \<open>fuse_cache_reorder\<close> completes,
  the shape of the new input is the single dimension at axis 0 of \<open>input_ids\<close>, whatever
  \<open>gather_dim\<close> is. When \<open>build_state_initializer\<close> completes, the extent that the
  initializers use is element 0 of the shape of \<open>input_ids\<close>, whatever \<open>batch_dim\<close>
  is: \<open>batch_dim\<close> only gives the position of that extent in the shape of a state.
\<close>

theorem batch_extent_from_input_ids:
  "(\<not> model_has_input (ov_model s) ''input_ids'' \<longrightarrow>
      fuse_cache_reorder E kvs gd s
        = Failed (if model_has_name (ov_model s) ''beam_idx'' then AssertionError
                  else RuntimeError) s
      \<and> build_state_initializer E bd s = Failed RuntimeError s)
   \<and> (\<forall>s'. fuse_cache_reorder E kvs gd s = Done () s' \<longrightarrow>
          (\<exists>ids. model_input (ov_model s) ''input_ids'' = Inr ids
             \<and> get_partial_shape (ov_model s) ids \<noteq> []
             \<and> get_partial_shape (ov_model s') (length (nodes (ov_model s)))
                 = [get_partial_shape (ov_model s) ids ! 0]))
   \<and> (\<forall>s'. build_state_initializer E bd s = Done () s' \<longrightarrow>
          (\<exists>ids. model_input (ov_model s) ''input_ids'' = Inr ids
             \<and> batch_extent (ov_model s') ids (length (nodes (ov_model s)) + 3)
             \<and> (\<forall>r\<in>set (get_ops (ov_model s)).
                   type_name (nodes (ov_model s) ! r) = ''ReadValue'' \<longrightarrow>
                     initialized (length (nodes (ov_model s))) (ov_model s')
                       (length (nodes (ov_model s)) + 3)
                       (list_index bd (length (get_partial_shape (ov_model s) r)))
                       (get_partial_shape (ov_model s) r)
                       (get_output_element_type (ov_model s) r) r)))"
proof (intro conjI allI impI)
  assume no: "\<not> model_has_input (ov_model s) ''input_ids''"
  then have mi: "model_input (ov_model s) ''input_ids'' = Inl RuntimeError"
    by (auto simp: model_input_def model_has_input_def find_None_iff split: option.splits
             dest: find_Some_set)
  show "fuse_cache_reorder E kvs gd s
        = Failed (if model_has_name (ov_model s) ''beam_idx'' then AssertionError
                  else RuntimeError) s"
    by (simp add: fuse_cache_reorder_def mi)
  show "build_state_initializer E bd s = Failed RuntimeError s"
    by (simp add: build_state_initializer_def mi)
next
  fix s' assume "fuse_cache_reorder E kvs gd s = Done () s'"
  from fuse_beam_idx_parameter [OF this]
  show "\<exists>ids. model_input (ov_model s) ''input_ids'' = Inr ids
             \<and> get_partial_shape (ov_model s) ids \<noteq> []
             \<and> get_partial_shape (ov_model s') (length (nodes (ov_model s)))
                 = [get_partial_shape (ov_model s) ids ! 0]"
    unfolding get_partial_shape_def by blast
next
  fix s' assume "build_state_initializer E bd s = Done () s'"
  from build_state_initializer_spec [OF this]
  show "\<exists>ids. model_input (ov_model s) ''input_ids'' = Inr ids
             \<and> batch_extent (ov_model s') ids (length (nodes (ov_model s)) + 3)
             \<and> (\<forall>r\<in>set (get_ops (ov_model s)).
                   type_name (nodes (ov_model s) ! r) = ''ReadValue'' \<longrightarrow>
                     initialized (length (nodes (ov_model s))) (ov_model s')
                       (length (nodes (ov_model s)) + 3)
                       (list_index bd (length (get_partial_shape (ov_model s) r)))
                       (get_partial_shape (ov_model s) r)
                       (get_output_element_type (ov_model s) r) r)"
    by blast
qed

theorem batch_extent_from_input_ids_witness:
  "\<not> model_has_input (ov_model no_input_ids_state) ''input_ids''
   \<and> fuse_cache_reorder reference_engine [] 1 no_input_ids_state
       = Failed RuntimeError no_input_ids_state
   \<and> build_state_initializer reference_engine 1 no_input_ids_state
       = Failed RuntimeError no_input_ids_state
   \<and> fuse_cache_reorder reference_engine [''past_key''] 1 example_state
       = Done () fused_along_1_example
   \<and> get_partial_shape (ov_model fused_along_1_example) 6 = [dynamic]
   \<and> build_state_initializer reference_engine 0 transformed_example = Done () stateful_example
   \<and> batch_extent (ov_model stateful_example) 0 12"
proof -
  have no: "\<not> model_has_input (ov_model no_input_ids_state) ''input_ids''" by code_simp
  have nb: "\<not> model_has_name (ov_model no_input_ids_state) ''beam_idx''" by code_simp
  note T1 = batch_extent_from_input_ids
              [of no_input_ids_state reference_engine "[]" 1 1, THEN conjunct1, THEN mp, OF no]
  have f1: "fuse_cache_reorder reference_engine [] 1 no_input_ids_state
              = Failed RuntimeError no_input_ids_state"
    using T1 [THEN conjunct1] nb by simp
  have f2: "build_state_initializer reference_engine 1 no_input_ids_state
              = Failed RuntimeError no_input_ids_state"
    using T1 [THEN conjunct2] .
  have "is_done (fuse_cache_reorder reference_engine [''past_key''] 1 example_state)"
    by code_simp
  then have r: "fuse_cache_reorder reference_engine [''past_key''] 1 example_state
                  = Done () fused_along_1_example"
    unfolding fused_along_1_example_def by (rule is_done_state_of)
  note T2 = batch_extent_from_input_ids
              [of example_state reference_engine "[''past_key'']" 1 0, THEN conjunct2,
               THEN conjunct1, rule_format, OF r]
  have ids: "model_input (ov_model example_state) ''input_ids'' = Inr 0" by code_simp
  have l: "length (nodes (ov_model example_state)) = 6" by code_simp
  have d: "[get_partial_shape (ov_model example_state) 0 ! 0] = [dynamic]" by code_simp
  from T2 obtain ids' where "model_input (ov_model example_state) ''input_ids'' = Inr ids'"
    and sh: "get_partial_shape (ov_model fused_along_1_example)
               (length (nodes (ov_model example_state)))
             = [get_partial_shape (ov_model example_state) ids' ! 0]"
    by blast
  then have "ids' = 0" using ids by simp
  then have f3: "get_partial_shape (ov_model fused_along_1_example) 6 = [dynamic]"
    using sh d unfolding l by simp
  have "is_done (build_state_initializer reference_engine 0 transformed_example)"
    by code_simp
  then have bs: "build_state_initializer reference_engine 0 transformed_example
                   = Done () stateful_example"
    unfolding stateful_example_def by (rule is_done_state_of)
  note T3 = batch_extent_from_input_ids
              [of transformed_example reference_engine "[]" 0 0, THEN conjunct2,
               THEN conjunct2, rule_format, OF bs]
  have ids4: "model_input (ov_model transformed_example) ''input_ids'' = Inr 0" by code_simp
  have l4: "length (nodes (ov_model transformed_example)) + 3 = 12" by code_simp
  from T3 obtain ids'' where "model_input (ov_model transformed_example) ''input_ids'' = Inr ids''"
    and be: "batch_extent (ov_model stateful_example) ids''
               (length (nodes (ov_model transformed_example)) + 3)"
    by blast
  then have f4: "batch_extent (ov_model stateful_example) 0 12"
    using ids4 unfolding l4 by simp
  show ?thesis
    by (intro conjI no f1 f2 r f3 bs f4)
qed

end
